theory Spec2Isabelle
  imports Complex_Main "HOL-Library.Char_ord" "HOL-Library.List_Lexorder"
begin

section \<open>Conventions of the embedding\<close>

text \<open>
  The development embeds the tick buffer, the resampling cache, the pair analytics and
  the alert condition of the backend (\<^verbatim>\<open>utils/helpers.py\<close>,
  \<^verbatim>\<open>core/data_manager.py\<close>, \<^verbatim>\<open>core/analytics.py\<close>,
  \<^verbatim>\<open>core/alerts_engine.py\<close>).

  \<^item> A Python \<^verbatim>\<open>float\<close> is a \<^typ>\<open>real\<close>; a cell of a pandas column that may hold NaN
    is a \<^typ>\<open>real option\<close> with \<open>None\<close> for NaN. Rounding is not modelled.
  \<^item> A pandas \<^verbatim>\<open>Timestamp\<close> is an \<^typ>\<open>int\<close>: nanoseconds since the epoch, UTC.
  \<^item> A \<^verbatim>\<open>str\<close> is a \<^typ>\<open>string\<close> of ASCII characters, ordered by code point as Python
    orders it.
  \<^item> Locks and logging have no effect on the values computed and are left out; the
    wall clock read by \<^verbatim>\<open>add_tick\<close> is an argument.
  \<^item> Calls into pandas' date parser and formatter, statsmodels and scikit-learn are
    fields of the record \<open>libs\<close>; a call that raises returns \<open>None\<close>.
\<close>

type_synonym timestamp = int

datatype error = ValueError | IndexError

section \<open>\<^verbatim>\<open>utils/helpers.py\<close>: strings\<close>

text \<open>\<^verbatim>\<open>str.isspace\<close> on the ASCII range: tab to carriage return, the four separators
  \<open>0x1C\<close> to \<open>0x1F\<close>, and the blank.\<close>

definition is_space :: "char \<Rightarrow> bool" where
  "is_space c = ((9::nat) \<le> of_char c \<and> of_char c \<le> (13::nat)
     \<or> (28::nat) \<le> of_char c \<and> of_char c \<le> (31::nat) \<or> of_char c = (32::nat))"

definition strip :: "string \<Rightarrow> string" where
  "strip s = rev (dropWhile is_space (rev (dropWhile is_space s)))"

definition upper_char :: "char \<Rightarrow> char" where
  "upper_char c = (if (97::nat) \<le> of_char c \<and> of_char c \<le> (122::nat)
     then char_of (of_char c - (32::nat)) else c)"

definition lower_char :: "char \<Rightarrow> char" where
  "lower_char c = (if (65::nat) \<le> of_char c \<and> of_char c \<le> (90::nat)
     then char_of (of_char c + (32::nat)) else c)"

definition upper :: "string \<Rightarrow> string" where
  "upper s = map upper_char s"

definition lower :: "string \<Rightarrow> string" where
  "lower s = map lower_char s"

definition normalize_symbol :: "string \<Rightarrow> string" where
  "normalize_symbol symbol = upper (strip symbol)"

section \<open>\<^verbatim>\<open>core/data_manager.py\<close>: the tick buffer\<close>

record tick =
  symbol :: string
  price :: real
  qty :: real
  ts :: string

text \<open>A row of the OHLCV frame. The index type is \<^typ>\<open>timestamp\<close> inside the cache and
  \<^typ>\<open>string\<close> in the records handed to callers.\<close>

record 'i candle =
  c_ts :: 'i
  c_open :: "real option"
  c_high :: "real option"
  c_low :: "real option"
  c_close :: "real option"
  c_volume :: real

type_synonym dataframe = "timestamp candle list"

record data_manager =
  tick_buffers :: "string \<rightharpoonup> tick list"
  ohlcv_cache :: "(string \<times> string) \<rightharpoonup> dataframe"
  tick_counts :: "string \<rightharpoonup> nat"
  last_tick_time :: "string \<rightharpoonup> timestamp"

text \<open>\<^verbatim>\<open>DataManager.__init__\<close>.\<close>

definition init_manager :: data_manager where
  "init_manager = \<lparr>tick_buffers = Map.empty, ohlcv_cache = Map.empty,
     tick_counts = Map.empty, last_tick_time = Map.empty\<rparr>"

text \<open>\<^verbatim>\<open>deque.append\<close> on a deque with \<^verbatim>\<open>maxlen\<close>: the item goes to the right end and,
  when the deque is then longer than \<^verbatim>\<open>maxlen\<close>, the leftmost item is dropped.\<close>

definition deque_append :: "nat \<Rightarrow> 'a list \<Rightarrow> 'a \<Rightarrow> 'a list" where
  "deque_append maxlen d x = (let d' = d @ [x] in if maxlen < length d' then tl d' else d')"

text \<open>Reading \<^verbatim>\<open>self.tick_buffers[symbol]\<close> on the \<^verbatim>\<open>defaultdict\<close>: a missing key is
  created with an empty deque.\<close>

definition buffer_of :: "data_manager \<Rightarrow> string \<Rightarrow> tick list" where
  "buffer_of s symb = (case tick_buffers s symb of None \<Rightarrow> [] | Some d \<Rightarrow> d)"

definition touch_buffer :: "data_manager \<Rightarrow> string \<Rightarrow> data_manager" where
  "touch_buffer s symb = s\<lparr>tick_buffers := (tick_buffers s)(symb \<mapsto> buffer_of s symb)\<rparr>"

definition count_of :: "data_manager \<Rightarrow> string \<Rightarrow> nat" where
  "count_of s symb = (case tick_counts s symb of None \<Rightarrow> 0 | Some n \<Rightarrow> n)"

text \<open>\<^verbatim>\<open>add_tick\<close>; \<open>cap\<close> is \<^verbatim>\<open>settings.tick_buffer_size\<close>, \<open>now\<close> the clock.\<close>

definition add_tick :: "nat \<Rightarrow> timestamp \<Rightarrow> tick \<Rightarrow> data_manager \<Rightarrow> data_manager" where
  "add_tick cap now t s =
     (let symb = normalize_symbol (symbol t) in
      s\<lparr>tick_buffers := (tick_buffers s)(symb \<mapsto> deque_append cap (buffer_of s symb) t),
        tick_counts := (tick_counts s)(symb \<mapsto> count_of s symb + 1),
        last_tick_time := (last_tick_time s)(symb \<mapsto> now)\<rparr>)"

fun add_ticks :: "nat \<Rightarrow> (timestamp \<times> tick) list \<Rightarrow> data_manager \<Rightarrow> data_manager" where
  "add_ticks cap [] s = s"
| "add_ticks cap ((now, t) # rest) s = add_ticks cap rest (add_tick cap now t s)"

text \<open>The slice \<^verbatim>\<open>xs[-n:]\<close>, which is also \<^verbatim>\<open>DataFrame.tail(n)\<close> for \<open>n \<noteq> 0\<close>: the last
  \<open>n\<close> items for a positive \<open>n\<close>, all but the first \<open>-n\<close> for a negative one.\<close>

definition last_n :: "int \<Rightarrow> 'a list \<Rightarrow> 'a list" where
  "last_n n xs = (if 0 < n then drop (length xs - nat n) xs else drop (nat (- n)) xs)"

text \<open>The comprehensions \<^verbatim>\<open>[t for t in ticks if t["ts"] >= from_ts]\<close> and
  \<^verbatim>\<open>[t for t in ticks if t["ts"] <= to_ts]\<close>, each behind \<^verbatim>\<open>if from_ts:\<close>.\<close>

fun filter_from :: "string option \<Rightarrow> ('a \<Rightarrow> string) \<Rightarrow> 'a list \<Rightarrow> 'a list" where
  "filter_from None key xs = xs"
| "filter_from (Some lo) key xs = (if lo = [] then xs else filter (\<lambda>x. lo \<le> key x) xs)"

fun filter_to :: "string option \<Rightarrow> ('a \<Rightarrow> string) \<Rightarrow> 'a list \<Rightarrow> 'a list" where
  "filter_to None key xs = xs"
| "filter_to (Some hi) key xs = (if hi = [] then xs else filter (\<lambda>x. key x \<le> hi) xs)"

fun apply_limit :: "int option \<Rightarrow> 'a list \<Rightarrow> 'a list" where
  "apply_limit None xs = xs"
| "apply_limit (Some n) xs = (if n = 0 then xs else last_n n xs)"

definition get_ticks ::
  "data_manager \<Rightarrow> string \<Rightarrow> int option \<Rightarrow> string option \<Rightarrow> string option
     \<Rightarrow> tick list \<times> data_manager" where
  "get_ticks s symb limit from_ts to_ts =
     (let symb' = normalize_symbol symb;
          ticks = buffer_of s symb'
      in (apply_limit limit (filter_to to_ts ts (filter_from from_ts ts ticks)),
          touch_buffer s symb'))"

definition get_latest_price :: "data_manager \<Rightarrow> string \<Rightarrow> real option \<times> data_manager" where
  "get_latest_price s symb =
     (let symb' = normalize_symbol symb; s' = touch_buffer s symb' in
      (if buffer_of s' symb' = [] then None else Some (price (last (buffer_of s' symb'))), s'))"

text \<open>The two branches of \<^verbatim>\<open>clear_buffer\<close>. The test \<^verbatim>\<open>if symbol:\<close> sends \<^verbatim>\<open>None\<close> and
  the empty string to the second one.\<close>

definition clear_symbol :: "data_manager \<Rightarrow> string \<Rightarrow> data_manager" where
  "clear_symbol s symb =
     (let symb' = normalize_symbol symb in
      s\<lparr>tick_buffers := (tick_buffers s)(symb' \<mapsto> []),
        tick_counts := (tick_counts s)(symb' \<mapsto> 0),
        ohlcv_cache := (\<lambda>k. if fst k = symb' then None else ohlcv_cache s k)\<rparr>)"

definition clear_all :: "data_manager \<Rightarrow> data_manager" where
  "clear_all s =
     s\<lparr>tick_buffers := (\<lambda>k. map_option (\<lambda>_. []) (tick_buffers s k)),
       tick_counts := (\<lambda>k. if tick_buffers s k = None then tick_counts s k else Some 0),
       ohlcv_cache := Map.empty\<rparr>"

fun clear_buffer :: "data_manager \<Rightarrow> string option \<Rightarrow> data_manager" where
  "clear_buffer s None = clear_all s"
| "clear_buffer s (Some symb) = (if symb = [] then clear_all s else clear_symbol s symb)"

section \<open>Library calls\<close>

text \<open>
  The functions of pandas, statsmodels and scikit-learn that the backend calls and that
  are not part of it. \<open>None\<close> is a raised exception.

  \<^item> \<open>to_datetime\<close>: \<^verbatim>\<open>pd.to_datetime(s, utc=True, format='ISO8601')\<close> on one string;
  \<^item> \<open>isoformat\<close>: \<^verbatim>\<open>Timestamp.isoformat()\<close>;
  \<^item> \<open>ols_params y X\<close>: the two entries of \<^verbatim>\<open>OLS(y, X).fit().params\<close> for a design matrix
    \<open>X\<close> of two columns, given by rows;
  \<^item> \<open>huber_coef x y\<close>: \<^verbatim>\<open>HuberRegressor().fit(x, y).coef_[0]\<close> for the one column \<open>x\<close>;
  \<^item> \<open>theilsen_coef x y\<close>: \<^verbatim>\<open>TheilSenRegressor(random_state=42).fit(x, y).coef_[0]\<close>;
  \<^item> \<open>adfuller xs\<close>: the first two entries of \<^verbatim>\<open>adfuller(xs, autolag='AIC')\<close>.
\<close>

record libs =
  to_datetime :: "string \<Rightarrow> timestamp option"
  isoformat :: "timestamp \<Rightarrow> string"
  ols_params :: "real list \<Rightarrow> (real \<times> real) list \<Rightarrow> (real \<times> real) option"
  huber_coef :: "real list \<Rightarrow> real list \<Rightarrow> real option"
  theilsen_coef :: "real list \<Rightarrow> real list \<Rightarrow> real option"
  adfuller :: "real option list \<Rightarrow> (real \<times> real) option"

section \<open>\<^verbatim>\<open>utils/helpers.py\<close>: resampling\<close>

definition timeframe_to_pandas_rule :: "string \<Rightarrow> string" where
  "timeframe_to_pandas_rule tf =
     (case map_of [(''1s'', ''1s''), (''1m'', ''1min''), (''5m'', ''5min''),
                   (''15m'', ''15min''), (''1h'', ''1h''), (''1d'', ''1d'')] (lower tf) of
        None \<Rightarrow> ''1min'' | Some r \<Rightarrow> r)"

text \<open>The width in nanoseconds that pandas gives to the six rules above; they are the
  only rules that reach \<^verbatim>\<open>resample_to_ohlcv\<close>. Any other string is an invalid frequency.\<close>

definition rule_width :: "string \<Rightarrow> int option" where
  "rule_width rule =
     map_of [(''1s'', 1000000000), (''1min'', 60000000000), (''5min'', 300000000000),
             (''15min'', 900000000000), (''1h'', 3600000000000), (''1d'', 86400000000000)] rule"

text \<open>Each of these widths divides a day, so the bins of \<^verbatim>\<open>resample\<close> (closed and
  labelled on the left, origin at the start of the first day) start at the multiples of
  the width.\<close>

definition bucket_of :: "int \<Rightarrow> timestamp \<Rightarrow> timestamp" where
  "bucket_of w t = t - t mod w"

text \<open>A row of the frame between \<^verbatim>\<open>ohlc()\<close> and the final \<^verbatim>\<open>fillna\<close>: every cell may be NaN.\<close>

record bar =
  b_ts :: timestamp
  b_open :: "real option"
  b_high :: "real option"
  b_low :: "real option"
  b_close :: "real option"
  b_volume :: "real option"

fun first_opt :: "'a list \<Rightarrow> 'a option" where
  "first_opt [] = None"
| "first_opt (x # xs) = Some x"

fun last_opt :: "'a list \<Rightarrow> 'a option" where
  "last_opt [] = None"
| "last_opt (x # xs) = Some (last (x # xs))"

fun max_list :: "real list \<Rightarrow> real option" where
  "max_list [] = None"
| "max_list (x # xs) = Some (fold max xs x)"

fun min_list :: "real list \<Rightarrow> real option" where
  "min_list [] = None"
| "min_list (x # xs) = Some (fold min xs x)"

text \<open>One row per bin from the bin of the earliest tick to the bin of the latest one;
  \<open>rows\<close> is sorted by time.\<close>

fun bins :: "int \<Rightarrow> (timestamp \<times> tick) list \<Rightarrow> timestamp list" where
  "bins w [] = []"
| "bins w (r # rows) =
     (let lo = bucket_of w (fst r); hi = bucket_of w (fst (last (r # rows)))
      in map (\<lambda>k. lo + int k * w) [0 ..< nat ((hi - lo) div w) + 1])"

text \<open>\<^verbatim>\<open>ohlc()\<close> of the prices and \<^verbatim>\<open>sum(min_count=1)\<close> of the quantities of one bin.\<close>

definition aggregate :: "int \<Rightarrow> (timestamp \<times> tick) list \<Rightarrow> timestamp \<Rightarrow> bar" where
  "aggregate w rows b =
     (let inside = map snd (filter (\<lambda>r. bucket_of w (fst r) = b) rows);
          ps = map price inside
      in \<lparr>b_ts = b, b_open = first_opt ps, b_high = max_list ps, b_low = min_list ps,
          b_close = last_opt ps,
          b_volume = (if inside = [] then None else Some (sum_list (map qty inside)))\<rparr>)"

text \<open>\<^verbatim>\<open>dropna(how='all')\<close> removes the rows whose five cells are all NaN.\<close>

definition all_nan :: "bar \<Rightarrow> bool" where
  "all_nan r = (b_open r = None \<and> b_high r = None \<and> b_low r = None \<and> b_close r = None
     \<and> b_volume r = None)"

text \<open>\<^verbatim>\<open>replace(0, np.nan)\<close> on one cell.\<close>

definition zero_to_nan :: "real option \<Rightarrow> real option" where
  "zero_to_nan v = (if v = Some 0 then None else v)"

fun ffill_from :: "'a option \<Rightarrow> 'a option list \<Rightarrow> 'a option list" where
  "ffill_from prev [] = []"
| "ffill_from prev (None # xs) = prev # ffill_from prev xs"
| "ffill_from prev (Some v # xs) = Some v # ffill_from (Some v) xs"

definition ffill :: "'a option list \<Rightarrow> 'a option list" where
  "ffill xs = ffill_from None xs"

definition bfill :: "'a option list \<Rightarrow> 'a option list" where
  "bfill xs = rev (ffill (rev xs))"

text \<open>\<^verbatim>\<open>ohlcv[price_cols].replace(0, np.nan)\<close> followed by \<^verbatim>\<open>.ffill().bfill()\<close>, column by
  column.\<close>

definition fill_column :: "real option list \<Rightarrow> real option list" where
  "fill_column col = bfill (ffill (map zero_to_nan col))"

definition fill_prices :: "bar list \<Rightarrow> bar list" where
  "fill_prices rows =
     map (\<lambda>(r, opn, hi, lo, cl). r\<lparr>b_open := opn, b_high := hi, b_low := lo, b_close := cl\<rparr>)
       (zip rows (zip (fill_column (map b_open rows)) (zip (fill_column (map b_high rows))
          (zip (fill_column (map b_low rows)) (fill_column (map b_close rows))))))"

text \<open>\<^verbatim>\<open>max(axis=1)\<close> and \<^verbatim>\<open>min(axis=1)\<close> skip NaN cells and give NaN when all are NaN.\<close>

definition row_max :: "real option list \<Rightarrow> real option" where
  "row_max cells = max_list (List.map_filter id cells)"

definition row_min :: "real option list \<Rightarrow> real option" where
  "row_min cells = min_list (List.map_filter id cells)"

text \<open>The two assignments after the comment ``Ensure price hierarchy consistency after
  filling'' (the second reads the new \<^verbatim>\<open>high\<close>), then \<^verbatim>\<open>fillna(0.0)\<close> on the volume.\<close>

definition finish_row :: "bar \<Rightarrow> timestamp candle" where
  "finish_row r =
     (let hi = row_max [b_open r, b_high r, b_low r, b_close r];
          lo = row_min [b_open r, hi, b_low r, b_close r]
      in \<lparr>c_ts = b_ts r, c_open = b_open r, c_high = hi, c_low = lo, c_close = b_close r,
          c_volume = (case b_volume r of None \<Rightarrow> 0 | Some v \<Rightarrow> v)\<rparr>)"

text \<open>The frame keeps the start of each bin as an instant. The source stores its
  \<^verbatim>\<open>isoformat()\<close> there and parses it back where it needs the instant; \<open>isoformat\<close> is
  applied below where the source compares or returns the string.\<close>

definition resample_to_ohlcv :: "libs \<Rightarrow> tick list \<Rightarrow> string \<Rightarrow> error + dataframe" where
  "resample_to_ohlcv L ticks timeframe =
     (if ticks = [] then Inr []
      else case those (map (\<lambda>t. to_datetime L (ts t)) ticks) of
        None \<Rightarrow> Inl ValueError
      | Some instants \<Rightarrow>
         (case rule_width timeframe of
            None \<Rightarrow> Inl ValueError
          | Some w \<Rightarrow>
             (let rows = sort_key fst (zip instants ticks);
                  ohlcv = filter (\<lambda>r. \<not> all_nan r) (map (aggregate w rows) (bins w rows))
              in if ohlcv = [] then Inr []
                 else Inr (map finish_row (fill_prices ohlcv)))))"

section \<open>\<^verbatim>\<open>core/data_manager.py\<close>: the resampling cache\<close>

definition to_records :: "libs \<Rightarrow> dataframe \<Rightarrow> string candle list" where
  "to_records L df =
     map (\<lambda>r. \<lparr>c_ts = isoformat L (c_ts r), c_open = c_open r, c_high = c_high r,
                c_low = c_low r, c_close = c_close r, c_volume = c_volume r\<rparr>) df"

text \<open>The part of \<^verbatim>\<open>get_ohlcv\<close> after the frame is known: time filters on the \<^verbatim>\<open>ts\<close> strings,
  \<^verbatim>\<open>tail(limit)\<close>, \<^verbatim>\<open>to_dict('records')\<close>.\<close>

definition filter_frame ::
  "libs \<Rightarrow> int option \<Rightarrow> string option \<Rightarrow> string option \<Rightarrow> dataframe \<Rightarrow> string candle list" where
  "filter_frame L limit from_ts to_ts df =
     to_records L (apply_limit limit
       (filter_to to_ts (\<lambda>r. isoformat L (c_ts r))
          (filter_from from_ts (\<lambda>r. isoformat L (c_ts r)) df)))"

definition get_ohlcv ::
  "libs \<Rightarrow> data_manager \<Rightarrow> string \<Rightarrow> string \<Rightarrow> int option \<Rightarrow> string option \<Rightarrow> string option
     \<Rightarrow> bool \<Rightarrow> error + (string candle list \<times> data_manager)" where
  "get_ohlcv L s symb timeframe limit from_ts to_ts force_resample =
     (let symb' = normalize_symbol symb; cache_key = (symb', timeframe) in
      case (if force_resample then None else ohlcv_cache s cache_key) of
        Some df \<Rightarrow> Inr (filter_frame L limit from_ts to_ts df, s)
      | None \<Rightarrow>
         (case get_ticks s symb' None from_ts to_ts of
            (ticks, s1) \<Rightarrow>
              if ticks = [] then Inr ([], s1)
              else case resample_to_ohlcv L ticks (timeframe_to_pandas_rule timeframe) of
                Inl e \<Rightarrow> Inl e
              | Inr df \<Rightarrow>
                  Inr (filter_frame L limit from_ts to_ts df,
                       s1\<lparr>ohlcv_cache := (ohlcv_cache s1)(cache_key \<mapsto> df)\<rparr>)))"

text \<open>A close-price \<^verbatim>\<open>Series\<close>: index and value, in index order.\<close>

type_synonym series = "(timestamp \<times> real option) list"

definition close_series :: "int option \<Rightarrow> dataframe \<Rightarrow> series" where
  "close_series limit df = map (\<lambda>r. (c_ts r, c_close r)) (apply_limit limit df)"

definition get_price_series ::
  "libs \<Rightarrow> data_manager \<Rightarrow> string \<Rightarrow> string \<Rightarrow> int option \<Rightarrow> bool
     \<Rightarrow> error + (series \<times> data_manager)" where
  "get_price_series L s symb timeframe limit force_resample =
     (let symb' = normalize_symbol symb; cache_key = (symb', timeframe) in
      case (if force_resample then None else ohlcv_cache s cache_key) of
        Some df \<Rightarrow> Inr (close_series limit df, s)
      | None \<Rightarrow>
         (let ticks = buffer_of s symb'; s1 = touch_buffer s symb' in
          if ticks = [] then Inr ([], s1)
          else case resample_to_ohlcv L ticks (timeframe_to_pandas_rule timeframe) of
            Inl e \<Rightarrow> Inl e
          | Inr df \<Rightarrow>
              if df = [] then Inr ([], s1)
              else Inr (close_series limit df,
                        s1\<lparr>ohlcv_cache := (ohlcv_cache s1)(cache_key \<mapsto> df)\<rparr>)))"

section \<open>\<^verbatim>\<open>core/analytics.py\<close>\<close>

text \<open>The shape \<^verbatim>\<open>{"ts": ..., "value": ...}\<close> of every series the engine returns. The \<^verbatim>\<open>ts\<close>
  is kept as the instant whose \<^verbatim>\<open>isoformat()\<close> the source writes and reads back.\<close>

record 'v point =
  pt_ts :: timestamp
  pt_value :: 'v

definition safe_division :: "real option \<Rightarrow> real option \<Rightarrow> real option \<Rightarrow> real option" where
  "safe_division numerator denominator dflt =
     (case (numerator, denominator) of
        (Some n, Some d) \<Rightarrow> if d = 0 then dflt else Some (n / d)
      | _ \<Rightarrow> dflt)"

definition ols_hedge_ratio :: "libs \<Rightarrow> real list \<Rightarrow> real list \<Rightarrow> real option" where
  "ols_hedge_ratio L y x = map_option snd (ols_params L y (map (\<lambda>v. (1, v)) x))"

definition huber_hedge_ratio :: "libs \<Rightarrow> real list \<Rightarrow> real list \<Rightarrow> real option" where
  "huber_hedge_ratio L y x = huber_coef L x y"

definition theilsen_hedge_ratio :: "libs \<Rightarrow> real list \<Rightarrow> real list \<Rightarrow> real option" where
  "theilsen_hedge_ratio L y x = theilsen_coef L x y"

text \<open>\<^verbatim>\<open>pd.DataFrame({'a': prices_a, 'b': prices_b}).dropna()\<close> for two series whose indexes
  increase: the rows present in both with neither value NaN, in index order.\<close>

type_synonym pair_frame = "(timestamp \<times> real \<times> real) list"

definition align :: "series \<Rightarrow> series \<Rightarrow> pair_frame" where
  "align prices_a prices_b =
     List.map_filter (\<lambda>(t, a). case (a, map_of prices_b t) of
                                  (Some x, Some (Some y)) \<Rightarrow> Some (t, x, y)
                                | _ \<Rightarrow> None) prices_a"

text \<open>The \<^verbatim>\<open>if\<close>/\<^verbatim>\<open>elif\<close> chain on \<^verbatim>\<open>method.upper()\<close>.\<close>

definition fit_ratio :: "libs \<Rightarrow> string \<Rightarrow> real list \<Rightarrow> real list \<Rightarrow> real option" where
  "fit_ratio L method y x =
     (if upper method = ''OLS'' then ols_hedge_ratio L y x
      else if upper method = ''HUBER'' then huber_hedge_ratio L y x
      else if upper method = ''THEIL-SEN'' then theilsen_hedge_ratio L y x
      else if upper method = ''KALMAN'' then ols_hedge_ratio L y x
      else Some 1)"

text \<open>The body of the \<^verbatim>\<open>try\<close> for one window: \<open>None\<close> when an exception is caught and the
  loop continues, which happens when the fit raises or when \<^verbatim>\<open>window_data.index[-1]\<close> is
  read on an empty window.\<close>

definition hedge_ratio_at :: "libs \<Rightarrow> string \<Rightarrow> pair_frame \<Rightarrow> real point option" where
  "hedge_ratio_at L method window_data =
     (case fit_ratio L method (map (\<lambda>r. fst (snd r)) window_data)
                               (map (\<lambda>r. snd (snd r)) window_data) of
        None \<Rightarrow> None
      | Some ratio \<Rightarrow>
          if window_data = [] then None
          else Some \<lparr>pt_ts = fst (last window_data), pt_value = ratio\<rparr>)"

text \<open>\<^verbatim>\<open>df.iloc[i-effective_window:i]\<close> for \<open>i\<close> from \<^verbatim>\<open>range(effective_window, len(df) + 1)\<close>.\<close>

definition rolling_hedge_ratios :: "libs \<Rightarrow> string \<Rightarrow> nat \<Rightarrow> pair_frame \<Rightarrow> real point list" where
  "rolling_hedge_ratios L method effective_window df =
     List.map_filter
       (\<lambda>i. hedge_ratio_at L method (take effective_window (drop (i - effective_window) df)))
       [effective_window ..< length df + 1]"

definition series_limit :: "nat \<Rightarrow> int option" where
  "series_limit window = Some (int (max (window * 3) (window + 20)))"

definition compute_hedge_ratio ::
  "libs \<Rightarrow> data_manager \<Rightarrow> string \<Rightarrow> string \<Rightarrow> string \<Rightarrow> nat \<Rightarrow> string
     \<Rightarrow> error + (real point list \<times> data_manager)" where
  "compute_hedge_ratio L s symbol_a symbol_b timeframe window method =
     (case get_price_series L s symbol_a timeframe (series_limit window) True of
        Inl e \<Rightarrow> Inl e
      | Inr (prices_a, s1) \<Rightarrow>
     (case get_price_series L s1 symbol_b timeframe (series_limit window) True of
        Inl e \<Rightarrow> Inl e
      | Inr (prices_b, s2) \<Rightarrow>
          if min (length prices_a) (length prices_b) < 2 then Inr ([], s2)
          else (let df = align prices_a prices_b in
                if length df < 2 then Inr ([], s2)
                else Inr (rolling_hedge_ratios L method (min window (length df)) df, s2))))"

text \<open>\<^verbatim>\<open>prices_a[ts] - (hr["value"] * prices_b[ts])\<close> on cells that may be NaN.\<close>

definition spread_value :: "real option \<Rightarrow> real \<Rightarrow> real option \<Rightarrow> real option" where
  "spread_value a ratio b =
     (case (a, b) of (Some x, Some y) \<Rightarrow> Some (x - ratio * y) | _ \<Rightarrow> None)"

definition spread_at :: "series \<Rightarrow> series \<Rightarrow> real point \<Rightarrow> real option point option" where
  "spread_at prices_a prices_b hr =
     (case (map_of prices_a (pt_ts hr), map_of prices_b (pt_ts hr)) of
        (Some a, Some b) \<Rightarrow>
          Some \<lparr>pt_ts = pt_ts hr, pt_value = spread_value a (pt_value hr) b\<rparr>
      | _ \<Rightarrow> None)"

definition compute_spread ::
  "libs \<Rightarrow> data_manager \<Rightarrow> string \<Rightarrow> string \<Rightarrow> string \<Rightarrow> nat \<Rightarrow> string
     \<Rightarrow> error + (real option point list \<times> data_manager)" where
  "compute_spread L s symbol_a symbol_b timeframe window method =
     (case compute_hedge_ratio L s symbol_a symbol_b timeframe window method of
        Inl e \<Rightarrow> Inl e
      | Inr (hedge_ratios, s1) \<Rightarrow>
          if hedge_ratios = [] then Inr ([], s1)
          else
     (case get_price_series L s1 symbol_a timeframe (series_limit window) True of
        Inl e \<Rightarrow> Inl e
      | Inr (prices_a, s2) \<Rightarrow>
     (case get_price_series L s2 symbol_b timeframe (series_limit window) True of
        Inl e \<Rightarrow> Inl e
      | Inr (prices_b, s3) \<Rightarrow>
          Inr (List.map_filter (spread_at prices_a prices_b) hedge_ratios, s3))))"

text \<open>\<^verbatim>\<open>rolling(window=w, min_periods=w)\<close> at position \<open>i\<close>: NaN until \<open>w\<close> observations are
  there and whenever one of them is NaN; the mean needs one observation, the standard
  deviation (one degree of freedom removed) two.\<close>

definition rolling_window :: "nat \<Rightarrow> real option list \<Rightarrow> nat \<Rightarrow> real list option" where
  "rolling_window w xs i =
     (if i + 1 < w then None else those (take w (drop (i + 1 - w) xs)))"

definition mean :: "real list \<Rightarrow> real" where
  "mean vs = sum_list vs / real (length vs)"

definition rolling_mean :: "nat \<Rightarrow> real option list \<Rightarrow> nat \<Rightarrow> real option" where
  "rolling_mean w xs i =
     (if w < 1 then None else map_option mean (rolling_window w xs i))"

definition sample_std :: "real list \<Rightarrow> real" where
  "sample_std vs = sqrt (sum_list (map (\<lambda>v. (v - mean vs)\<^sup>2) vs) / real (length vs - 1))"

definition rolling_std :: "nat \<Rightarrow> real option list \<Rightarrow> nat \<Rightarrow> real option" where
  "rolling_std w xs i =
     (if w < 2 then None else map_option sample_std (rolling_window w xs i))"

text \<open>The loop \<^verbatim>\<open>for idx in df.index\<close> of \<^verbatim>\<open>compute_zscore\<close>, by position (the index has no
  duplicates).\<close>

definition zscore_at :: "nat \<Rightarrow> real option point list \<Rightarrow> nat \<Rightarrow> real option point option" where
  "zscore_at w spreads i =
     (case (rolling_mean w (map pt_value spreads) i, rolling_std w (map pt_value spreads) i) of
        (Some m, Some sd) \<Rightarrow>
          Some \<lparr>pt_ts = pt_ts (spreads ! i),
                pt_value = safe_division
                  (case pt_value (spreads ! i) of None \<Rightarrow> None | Some v \<Rightarrow> Some (v - m))
                  (Some sd) (Some 0)\<rparr>
      | _ \<Rightarrow> None)"

definition zscore_points :: "nat \<Rightarrow> real option point list \<Rightarrow> real option point list" where
  "zscore_points w spreads = List.map_filter (zscore_at w spreads) [0 ..< length spreads]"

definition compute_zscore ::
  "libs \<Rightarrow> data_manager \<Rightarrow> string \<Rightarrow> string \<Rightarrow> string \<Rightarrow> nat \<Rightarrow> string
     \<Rightarrow> error + (real option point list \<times> data_manager)" where
  "compute_zscore L s symbol_a symbol_b timeframe window method =
     (case compute_spread L s symbol_a symbol_b timeframe window method of
        Inl e \<Rightarrow> Inl e
      | Inr (spreads, s1) \<Rightarrow>
          if length spreads < 2 then Inr ([], s1)
          else Inr (zscore_points (min window (length spreads)) spreads, s1))"

record adf_result =
  stat :: real
  pvalue :: real

definition compute_adf_test ::
  "libs \<Rightarrow> data_manager \<Rightarrow> string \<Rightarrow> string \<Rightarrow> string \<Rightarrow> nat \<Rightarrow> string
     \<Rightarrow> error + (adf_result \<times> data_manager)" where
  "compute_adf_test L s symbol_a symbol_b timeframe window method =
     (case compute_spread L s symbol_a symbol_b timeframe window method of
        Inl e \<Rightarrow> Inl e
      | Inr (spreads, s1) \<Rightarrow>
          if length spreads < 20 then Inr (\<lparr>stat = 0, pvalue = 1\<rparr>, s1)
          else (case adfuller L (map pt_value spreads) of
                  Some (st, pv) \<Rightarrow> Inr (\<lparr>stat = st, pvalue = pv\<rparr>, s1)
                | None \<Rightarrow> Inr (\<lparr>stat = 0, pvalue = 1\<rparr>, s1)))"

section \<open>\<^verbatim>\<open>core/alerts_engine.py\<close>\<close>

text \<open>\<^verbatim>\<open>AlertsEngine._evaluate_condition\<close>; the literal \<^verbatim>\<open>1e-6\<close> is one millionth.\<close>

definition evaluate_condition :: "real \<Rightarrow> string \<Rightarrow> real \<Rightarrow> bool" where
  "evaluate_condition actual operator threshold =
     (if operator = ''>'' then actual > threshold
      else if operator = ''<'' then actual < threshold
      else if operator = ''>='' then actual \<ge> threshold
      else if operator = ''<='' then actual \<le> threshold
      else if operator = ''=='' then \<bar>actual - threshold\<bar> < 1 / 1000000
      else False)"

section \<open>Notions of the specification\<close>

text \<open>The price hierarchy of a candle, high \<open>\<ge>\<close> max(open, close) and low \<open>\<le>\<close> min(open, close).
  A comparison with NaN is false, so a candle with a NaN price does not have it.\<close>

definition hierarchy_ok :: "'i candle \<Rightarrow> bool" where
  "hierarchy_ok c =
     (case (c_open c, c_high c, c_low c, c_close c) of
        (Some opn, Some hi, Some lo, Some cl) \<Rightarrow> max opn cl \<le> hi \<and> lo \<le> min opn cl
      | _ \<Rightarrow> False)"

text \<open>A cell that \<^verbatim>\<open>replace(0, np.nan)\<close> and the fills leave as it is: neither NaN nor 0.\<close>

definition solid :: "real option \<Rightarrow> bool" where
  "solid cell = (\<exists>v. cell = Some v \<and> v \<noteq> 0)"

section \<open>Example inputs\<close>

text \<open>Least squares of \<open>y\<close> on a design whose first column is the constant one, in exact
  arithmetic; for a constant second column the solution of least norm, which is what the
  pseudo-inverse of \<^verbatim>\<open>OLS.fit\<close> selects.\<close>

definition least_squares :: "real list \<Rightarrow> (real \<times> real) list \<Rightarrow> (real \<times> real) option" where
  "least_squares y X =
     (let x = map snd X;
          sxx = sum_list (map (\<lambda>v. (v - mean x)\<^sup>2) x);
          sxy = sum_list (map (\<lambda>(v, u). (v - mean x) * (u - mean y)) (zip x y))
      in if x = [] then None
         else if sxx = 0
           then Some (mean y / (1 + (mean x)\<^sup>2), mean y * mean x / (1 + (mean x)\<^sup>2))
         else Some (mean y - sxy / sxx * mean x, sxy / sxx))"

text \<open>A library for the examples below: four instants and their ISO strings, exact least
  squares for \<^verbatim>\<open>OLS\<close>, and Huber and Theil-Sen fits that raise, as those of scikit-learn do
  when their solver does not converge; \<^verbatim>\<open>adfuller\<close> raises too.\<close>

definition demo_libs :: libs where
  "demo_libs =
     \<lparr>to_datetime = map_of [(''1970-01-01T00:00:00+00:00'', 0),
                            (''1970-01-01T00:01:00+00:00'', 60000000000),
                            (''1970-01-01T00:02:00+00:00'', 120000000000),
                            (''1970-01-01T00:04:00+00:00'', 240000000000)],
      isoformat = (\<lambda>t. case map_of [(0, ''1970-01-01T00:00:00+00:00''),
                            (60000000000, ''1970-01-01T00:01:00+00:00''),
                            (120000000000, ''1970-01-01T00:02:00+00:00''),
                            (240000000000, ''1970-01-01T00:04:00+00:00'')] t of
                         Some s \<Rightarrow> s | None \<Rightarrow> []),
      ols_params = least_squares,
      huber_coef = (\<lambda>x y. None),
      theilsen_coef = (\<lambda>x y. None),
      adfuller = (\<lambda>xs. None)\<rparr>"

text \<open>Two flat price series, \<open>A\<close> at 100 and \<open>B\<close> at 50, one trade a minute for three
  minutes.\<close>

definition flat_ticks :: "(timestamp \<times> tick) list" where
  "flat_ticks =
     [(0, \<lparr>symbol = ''A'', price = 100, qty = 1, ts = ''1970-01-01T00:00:00+00:00''\<rparr>),
      (0, \<lparr>symbol = ''B'', price = 50, qty = 1, ts = ''1970-01-01T00:00:00+00:00''\<rparr>),
      (1, \<lparr>symbol = ''A'', price = 100, qty = 1, ts = ''1970-01-01T00:01:00+00:00''\<rparr>),
      (1, \<lparr>symbol = ''B'', price = 50, qty = 1, ts = ''1970-01-01T00:01:00+00:00''\<rparr>),
      (2, \<lparr>symbol = ''A'', price = 100, qty = 1, ts = ''1970-01-01T00:02:00+00:00''\<rparr>),
      (2, \<lparr>symbol = ''B'', price = 50, qty = 1, ts = ''1970-01-01T00:02:00+00:00''\<rparr>)]"

definition flat_state :: data_manager where
  "flat_state = add_ticks 10000 flat_ticks init_manager"

text \<open>The scenario of the specification: capacity 3 and four trades of \<open>X\<close> at the prices
  1, 2, 3 and 4.\<close>

definition four_ticks :: "(timestamp \<times> tick) list" where
  "four_ticks =
     [(0, \<lparr>symbol = ''x'', price = 1, qty = 1, ts = ''1970-01-01T00:00:00+00:00''\<rparr>),
      (1, \<lparr>symbol = ''x'', price = 2, qty = 1, ts = ''1970-01-01T00:01:00+00:00''\<rparr>),
      (2, \<lparr>symbol = ''x'', price = 3, qty = 1, ts = ''1970-01-01T00:02:00+00:00''\<rparr>),
      (3, \<lparr>symbol = ''x'', price = 4, qty = 1, ts = ''1970-01-01T00:04:00+00:00''\<rparr>)]"

section \<open>The tick buffer\<close>

lemma keep_keep_append:
  "drop (length (drop (length xs - cap) xs @ ys) - cap) (drop (length xs - cap) xs @ ys)
     = drop (length (xs @ ys) - cap) (xs @ ys)"
proof -
  let ?b = "length xs - cap"
  have e: "drop ?b xs @ ys = drop ?b (xs @ ys)" by simp
  have "drop (length (drop ?b (xs @ ys)) - cap) (drop ?b (xs @ ys))
          = drop (length (drop ?b (xs @ ys)) - cap + ?b) (xs @ ys)"
    by (simp only: drop_drop)
  also have "length (drop ?b (xs @ ys)) - cap + ?b = length (xs @ ys) - cap"
    by simp
  finally show ?thesis by (simp only: e)
qed

lemma deque_append_keep:
  assumes "length d \<le> n"
  shows "deque_append n d x = drop (length (d @ [x]) - n) (d @ [x])"
proof (cases "length d = n")
  case True
  then have "length (d @ [x]) - n = 1" by simp
  then have "drop (length (d @ [x]) - n) (d @ [x]) = tl (d @ [x])"
    by (simp only: drop_Suc One_nat_def drop_0)
  then show ?thesis using True by (simp add: deque_append_def Let_def del: drop_append)
next
  case False
  then have "length (d @ [x]) - n = 0" using assms by simp
  then have "drop (length (d @ [x]) - n) (d @ [x]) = d @ [x]" by (simp only: drop_0)
  then show ?thesis using False assms by (simp add: deque_append_def Let_def del: drop_append)
qed

lemma deque_append_length: "length d \<le> n \<Longrightarrow> length (deque_append n d x) \<le> n"
  by (simp add: deque_append_keep)

lemma last_deque_append:
  assumes "0 < cap"
  shows "deque_append cap d x \<noteq> [] \<and> last (deque_append cap d x) = x"
proof (cases d)
  case Nil
  then show ?thesis using assms by (simp add: deque_append_def)
next
  case (Cons a d')
  then show ?thesis by (simp add: deque_append_def Let_def)
qed

lemma buffer_of_add_tick:
  "buffer_of (add_tick cap now t s) k =
     (if k = normalize_symbol (symbol t) then deque_append cap (buffer_of s k) t
      else buffer_of s k)"
  by (simp add: add_tick_def buffer_of_def Let_def)

lemma buffer_of_touch: "buffer_of (touch_buffer s k) k' = buffer_of s k'"
  by (simp add: touch_buffer_def buffer_of_def split: option.splits)

lemma touch_touch: "touch_buffer (touch_buffer s k) k = touch_buffer s k"
  by (simp add: touch_buffer_def buffer_of_def)

lemma ohlcv_cache_touch: "ohlcv_cache (touch_buffer s k) = ohlcv_cache s"
  by (simp add: touch_buffer_def)

text \<open>After any run of \<^verbatim>\<open>add_tick\<close> a buffer that was within its capacity holds the last
  \<open>cap\<close> of the ticks it held and received, in order of arrival.\<close>

lemma buffer_of_add_ticks:
  "length (buffer_of s k) \<le> cap \<Longrightarrow>
   buffer_of (add_ticks cap nts s) k =
     drop (length (buffer_of s k @ filter (\<lambda>t. normalize_symbol (symbol t) = k) (map snd nts)) - cap)
       (buffer_of s k @ filter (\<lambda>t. normalize_symbol (symbol t) = k) (map snd nts))"
proof (induction nts arbitrary: s)
  case Nil
  then show ?case by simp
next
  case (Cons a nts)
  obtain now t where a: "a = (now, t)" by (cases a)
  let ?new = "filter (\<lambda>t. normalize_symbol (symbol t) = k) (map snd nts)"
  show ?case
  proof (cases "normalize_symbol (symbol t) = k")
    case True
    have len: "length (buffer_of (add_tick cap now t s) k) \<le> cap"
      using Cons.prems True by (simp add: buffer_of_add_tick deque_append_length)
    have b: "buffer_of (add_tick cap now t s) k
               = drop (length (buffer_of s k @ [t]) - cap) (buffer_of s k @ [t])"
      using True Cons.prems by (simp add: buffer_of_add_tick deque_append_keep del: drop_append)
    have "buffer_of (add_ticks cap (a # nts) s) k
            = drop (length (buffer_of (add_tick cap now t s) k @ ?new) - cap)
                (buffer_of (add_tick cap now t s) k @ ?new)"
      using Cons.IH[OF len] by (simp only: a add_ticks.simps)
    also have "\<dots> = drop (length ((buffer_of s k @ [t]) @ ?new) - cap) ((buffer_of s k @ [t]) @ ?new)"
      by (simp only: b keep_keep_append)
    finally show ?thesis using True by (simp add: a del: drop_append)
  next
    case False
    then show ?thesis using Cons by (auto simp add: a buffer_of_add_tick)
  qed
qed

text \<open>
  \<^bold>\<open>C2.\<close> For a symbol \<open>S\<close> whose buffer has capacity \<open>N\<close>: after \<open>N + k\<close> ticks of \<open>S\<close>
  with \<open>k > 0\<close> have gone through \<^verbatim>\<open>add_tick\<close> (ticks of other symbols may come in between),
  \<^verbatim>\<open>get_ticks(S)\<close> without filters returns exactly \<open>N\<close> ticks: the \<open>k\<close> oldest are gone and the
  others are in the order of insertion. The witness is the scenario with capacity 3 and
  the prices 1, 2, 3, 4, which leaves 2, 3, 4.
\<close>

theorem add_ticks_fifo_eviction:
  assumes "length (buffer_of s (normalize_symbol S)) \<le> N"
    and "length (filter (\<lambda>t. normalize_symbol (symbol t) = normalize_symbol S) (map snd nts))
           = N + k"
    and "0 < k"
  shows "fst (get_ticks (add_ticks N nts s) S None None None)
           = drop k (filter (\<lambda>t. normalize_symbol (symbol t) = normalize_symbol S) (map snd nts))
         \<and> length (fst (get_ticks (add_ticks N nts s) S None None None)) = N"
proof -
  let ?new = "filter (\<lambda>t. normalize_symbol (symbol t) = normalize_symbol S) (map snd nts)"
  let ?old = "buffer_of s (normalize_symbol S)"
  have "fst (get_ticks (add_ticks N nts s) S None None None)
          = drop (length (?old @ ?new) - N) (?old @ ?new)"
    using buffer_of_add_ticks[OF assms(1), of nts]
    by (simp add: get_ticks_def Let_def del: drop_append)
  also have "length (?old @ ?new) - N = length ?old + k" using assms(2) by simp
  also have "drop (length ?old + k) (?old @ ?new) = drop k ?new" by simp
  finally show ?thesis using assms(2) by simp
qed

theorem add_ticks_fifo_eviction_witness:
  "length (buffer_of init_manager (normalize_symbol ''X'')) \<le> 3
   \<and> length (filter (\<lambda>t. normalize_symbol (symbol t) = normalize_symbol ''X'')
               (map snd four_ticks)) = 3 + 1
   \<and> map price (fst (get_ticks (add_ticks 3 four_ticks init_manager) ''X'' None None None))
       = [2, 3, 4]"
proof -
  have n: "normalize_symbol ''x'' = ''X''" "normalize_symbol ''X'' = ''X''" by code_simp+
  have h1: "length (buffer_of init_manager (normalize_symbol ''X'')) \<le> 3"
    by (simp add: init_manager_def buffer_of_def)
  have h2: "length (filter (\<lambda>t. normalize_symbol (symbol t) = normalize_symbol ''X'')
               (map snd four_ticks)) = 3 + 1"
    by (simp add: n four_ticks_def)
  show ?thesis
    using add_ticks_fifo_eviction[OF h1 h2] h1 h2 by (simp add: n four_ticks_def)
qed

text \<open>
  \<^bold>\<open>C10.\<close> \<^verbatim>\<open>get_latest_price(S)\<close> returns \<^verbatim>\<open>None\<close> exactly when the buffer of \<open>S\<close> is empty and
  otherwise the price of the last tick of the buffer, which is the tick that \<^verbatim>\<open>add_tick\<close>
  appended last; no buffer changes its content, and the cache, the counters and the times
  stay as they are. The only trace of the call is that a symbol never seen before now has
  an entry with an empty buffer.
\<close>

theorem get_latest_price_spec:
  "(fst (get_latest_price s S) = None \<longleftrightarrow> buffer_of s (normalize_symbol S) = [])
   \<and> (buffer_of s (normalize_symbol S) \<noteq> [] \<longrightarrow>
        fst (get_latest_price s S) = Some (price (last (buffer_of s (normalize_symbol S)))))
   \<and> (0 < cap \<longrightarrow> fst (get_latest_price (add_tick cap now t s) (symbol t)) = Some (price t))
   \<and> (\<forall>k. buffer_of (snd (get_latest_price s S)) k = buffer_of s k)
   \<and> tick_buffers s \<subseteq>\<^sub>m tick_buffers (snd (get_latest_price s S))
   \<and> ohlcv_cache (snd (get_latest_price s S)) = ohlcv_cache s
   \<and> tick_counts (snd (get_latest_price s S)) = tick_counts s
   \<and> last_tick_time (snd (get_latest_price s S)) = last_tick_time s"
proof -
  have 1: "fst (get_latest_price s S) = None \<longleftrightarrow> buffer_of s (normalize_symbol S) = []"
    by (simp add: get_latest_price_def Let_def buffer_of_touch)
  have 2: "buffer_of s (normalize_symbol S) \<noteq> [] \<longrightarrow>
        fst (get_latest_price s S) = Some (price (last (buffer_of s (normalize_symbol S))))"
    by (simp add: get_latest_price_def Let_def buffer_of_touch)
  have 3: "0 < cap \<longrightarrow> fst (get_latest_price (add_tick cap now t s) (symbol t)) = Some (price t)"
    using last_deque_append[of cap "buffer_of s (normalize_symbol (symbol t))" t]
    by (simp add: get_latest_price_def Let_def buffer_of_touch buffer_of_add_tick)
  have 4: "\<forall>k. buffer_of (snd (get_latest_price s S)) k = buffer_of s k"
    by (simp add: get_latest_price_def Let_def buffer_of_touch)
  have 5: "tick_buffers s \<subseteq>\<^sub>m tick_buffers (snd (get_latest_price s S))"
    by (auto simp add: get_latest_price_def Let_def touch_buffer_def buffer_of_def map_le_def)
  have 6: "ohlcv_cache (snd (get_latest_price s S)) = ohlcv_cache s"
    "tick_counts (snd (get_latest_price s S)) = tick_counts s"
    "last_tick_time (snd (get_latest_price s S)) = last_tick_time s"
    by (simp_all add: get_latest_price_def Let_def touch_buffer_def)
  from 1 2 3 4 5 6 show ?thesis by blast
qed

theorem get_latest_price_spec_witness:
  "buffer_of flat_state (normalize_symbol ''b'') \<noteq> []
   \<and> fst (get_latest_price flat_state ''b'') = Some 50
   \<and> (0::nat) < 3
   \<and> fst (get_latest_price (add_tick 3 7 \<lparr>symbol = ''b'', price = 51, qty = 1, ts = []\<rparr> flat_state) ''b'')
       = Some 51
   \<and> fst (get_latest_price init_manager ''b'') = None"
proof -
  have ne: "buffer_of flat_state (normalize_symbol ''b'') \<noteq> []" by code_simp
  have p: "price (last (buffer_of flat_state (normalize_symbol ''b''))) = 50" by code_simp
  have e: "buffer_of init_manager (normalize_symbol ''b'') = []"
    by (simp add: init_manager_def buffer_of_def)
  show ?thesis
    using get_latest_price_spec[of flat_state "''b''" 3 7
            "\<lparr>symbol = ''b'', price = 51, qty = 1, ts = []\<rparr>"]
          get_latest_price_spec[of init_manager "''b''" 3 7
            "\<lparr>symbol = ''b'', price = 51, qty = 1, ts = []\<rparr>"]
          ne p e
    by simp
qed

text \<open>
  \<^bold>\<open>C8.\<close> \<^verbatim>\<open>clear_buffer(S)\<close> for a symbol \<open>S\<close> (a non-empty string: the test \<^verbatim>\<open>if symbol:\<close> takes
  the empty string for no symbol) empties the buffer of \<open>S\<close> and removes the cache entry of
  \<open>S\<close> for every timeframe; the buffer and the cache entries of every other symbol stay as
  they are. \<^verbatim>\<open>clear_buffer()\<close> without a symbol empties every buffer and the whole cache.
\<close>

theorem clear_buffer_frame:
  "(S \<noteq> [] \<longrightarrow>
      tick_buffers (clear_buffer s (Some S)) (normalize_symbol S) = Some []
    \<and> (\<forall>tf. ohlcv_cache (clear_buffer s (Some S)) (normalize_symbol S, tf) = None)
    \<and> (\<forall>k. k \<noteq> normalize_symbol S \<longrightarrow>
          tick_buffers (clear_buffer s (Some S)) k = tick_buffers s k)
    \<and> (\<forall>k tf. k \<noteq> normalize_symbol S \<longrightarrow>
          ohlcv_cache (clear_buffer s (Some S)) (k, tf) = ohlcv_cache s (k, tf)))
   \<and> (\<forall>k. buffer_of (clear_buffer s None) k = [])
   \<and> dom (tick_buffers (clear_buffer s None)) = dom (tick_buffers s)
   \<and> ohlcv_cache (clear_buffer s None) = Map.empty
   \<and> clear_buffer s (Some []) = clear_buffer s None"
  by (auto simp add: clear_symbol_def clear_all_def Let_def buffer_of_def split: option.splits)

theorem clear_buffer_frame_witness:
  "''a'' \<noteq> [] \<and> ''B'' \<noteq> normalize_symbol ''a''
   \<and> tick_buffers (clear_buffer flat_state (Some ''a'')) ''A'' = Some []
   \<and> map price (buffer_of (clear_buffer flat_state (Some ''a'')) ''B'') = [50, 50, 50]
   \<and> ohlcv_cache (clear_buffer flat_state (Some ''a'')) (''A'', ''1m'') = None
   \<and> buffer_of (clear_buffer flat_state None) ''B'' = []"
proof -
  have n: "normalize_symbol ''a'' = ''A''" by code_simp
  have b: "map price (buffer_of flat_state ''B'') = [50, 50, 50]" by code_simp
  have "tick_buffers (clear_buffer flat_state (Some ''a'')) ''B'' = tick_buffers flat_state ''B''"
    using clear_buffer_frame[of "''a''" flat_state] by (simp add: n)
  then have "buffer_of (clear_buffer flat_state (Some ''a'')) ''B'' = buffer_of flat_state ''B''"
    by (simp add: buffer_of_def)
  then show ?thesis
    using clear_buffer_frame[of "''a''" flat_state] b by (simp add: n)
qed

section \<open>The resampling cache\<close>

text \<open>
  \<^bold>\<open>C5.\<close> When \<^verbatim>\<open>get_ohlcv\<close> returns with \<^verbatim>\<open>force_resample\<close> false, a second call with the same
  arguments on the state the first one left returns too, with the same candles, and
  leaves that state as it is. If the cache holds a frame for the symbol and the timeframe
  after the first call, the candles are that frame under the time and limit filters; if
  it holds none, there were no ticks and both calls return the empty list.
\<close>

theorem get_ohlcv_idempotent:
  assumes "get_ohlcv L s symb timeframe limit from_ts to_ts False = Inr (candles, s1)"
  shows "get_ohlcv L s1 symb timeframe limit from_ts to_ts False = Inr (candles, s1)
         \<and> (\<forall>df. ohlcv_cache s1 (normalize_symbol symb, timeframe) = Some df \<longrightarrow>
                candles = filter_frame L limit from_ts to_ts df)
         \<and> (ohlcv_cache s1 (normalize_symbol symb, timeframe) = None \<longrightarrow> candles = [])"
proof (cases "ohlcv_cache s (normalize_symbol symb, timeframe)")
  case (Some df)
  then show ?thesis using assms by (auto simp add: get_ohlcv_def Let_def)
next
  case None
  define k where "k = normalize_symbol (normalize_symbol symb)"
  define ticks where "ticks = filter_to to_ts ts (filter_from from_ts ts (buffer_of s k))"
  have first: "get_ticks s (normalize_symbol symb) None from_ts to_ts = (ticks, touch_buffer s k)"
    by (simp add: get_ticks_def Let_def ticks_def k_def)
  have again: "get_ticks (touch_buffer s k) (normalize_symbol symb) None from_ts to_ts
            = (ticks, touch_buffer s k)"
    by (simp add: get_ticks_def Let_def buffer_of_touch touch_touch ticks_def k_def)
  show ?thesis
  proof (cases "ticks = []")
    case True
    then have r: "candles = []" "s1 = touch_buffer s k"
      using assms None first by (auto simp add: get_ohlcv_def Let_def)
    show ?thesis using True None r again
      by (simp add: get_ohlcv_def Let_def ohlcv_cache_touch)
  next
    case False
    then obtain df where
      df: "resample_to_ohlcv L ticks (timeframe_to_pandas_rule timeframe) = Inr df"
      using assms None first
      by (cases "resample_to_ohlcv L ticks (timeframe_to_pandas_rule timeframe)")
         (auto simp add: get_ohlcv_def Let_def)
    have r: "candles = filter_frame L limit from_ts to_ts df"
      "s1 = (touch_buffer s k)\<lparr>ohlcv_cache :=
               (ohlcv_cache (touch_buffer s k))((normalize_symbol symb, timeframe) \<mapsto> df)\<rparr>"
      using assms None False df first
      by (auto simp add: get_ohlcv_def Let_def)
    show ?thesis by (simp add: r get_ohlcv_def Let_def)
  qed
qed

theorem get_ohlcv_idempotent_witness:
  "(case get_ohlcv demo_libs flat_state ''a'' ''1m'' (Some 2) None None False of
      Inl e \<Rightarrow> False
    | Inr (candles, s1) \<Rightarrow>
        map c_ts candles = [''1970-01-01T00:01:00+00:00'', ''1970-01-01T00:02:00+00:00'']
        \<and> get_ohlcv demo_libs s1 ''a'' ''1m'' (Some 2) None None False = Inr (candles, s1))"
proof -
  have e: "map_sum id (\<lambda>r. map c_ts (fst r))
             (get_ohlcv demo_libs flat_state ''a'' ''1m'' (Some 2) None None False)
           = Inr [''1970-01-01T00:01:00+00:00'', ''1970-01-01T00:02:00+00:00'']"
    by code_simp
  then obtain candles s1 where
    r: "get_ohlcv demo_libs flat_state ''a'' ''1m'' (Some 2) None None False = Inr (candles, s1)"
    and c: "map c_ts candles = [''1970-01-01T00:01:00+00:00'', ''1970-01-01T00:02:00+00:00'']"
    by (cases "get_ohlcv demo_libs flat_state ''a'' ''1m'' (Some 2) None None False") auto
  show ?thesis using get_ohlcv_idempotent[OF r] c by (simp add: r)
qed

section \<open>Resampling\<close>

lemma length_ffill_from: "length (ffill_from p xs) = length xs"
  by (induction p xs rule: ffill_from.induct) simp_all

lemma length_fill_column: "length (fill_column col) = length col"
  by (simp add: fill_column_def bfill_def ffill_def length_ffill_from)

lemma map_b_ts_fill_prices: "map b_ts (fill_prices rows) = map b_ts rows"
proof -
  let ?z = "zip (fill_column (map b_open rows)) (zip (fill_column (map b_high rows))
          (zip (fill_column (map b_low rows)) (fill_column (map b_close rows))))"
  have len: "length rows = length ?z" by (simp add: length_fill_column)
  have "map b_ts (fill_prices rows) = map (\<lambda>p. b_ts (fst p)) (zip rows ?z)"
    by (simp add: fill_prices_def case_prod_beta)
  also have "\<dots> = map b_ts (map fst (zip rows ?z))" by simp
  also have "\<dots> = map b_ts rows" using len by (simp only: map_fst_zip)
  finally show ?thesis .
qed

lemma c_ts_finish_row: "c_ts (finish_row r) = b_ts r"
  by (simp add: finish_row_def Let_def)

lemma b_ts_aggregate: "b_ts (aggregate w rows b) = b"
  by (simp add: aggregate_def Let_def)

lemma distinct_bins: "0 < w \<Longrightarrow> distinct (bins w rows)"
proof (cases rows)
  case Nil
  then show ?thesis by simp
next
  case (Cons r rest)
  assume w: "0 < w"
  have "distinct (map (\<lambda>k. lo + int k * w) [0 ..< n])" for lo n
    using w by (simp add: distinct_map inj_on_def)
  then show ?thesis unfolding Cons bins.simps Let_def by blast
qed

lemma rule_width_pos: "rule_width rule = Some w \<Longrightarrow> 0 < w"
proof -
  assume "rule_width rule = Some w"
  then have "(rule, w) \<in> set [(''1s'', 1000000000), (''1min'', 60000000000), (''5min'', 300000000000),
             (''15min'', 900000000000), (''1h'', 3600000000000), (''1d'', 86400000000000)]"
    unfolding rule_width_def by (rule map_of_SomeD)
  then show ?thesis by auto
qed

lemma resample_distinct:
  assumes "resample_to_ohlcv L ticks rule = Inr df"
  shows "distinct (map c_ts df)"
proof (cases "ticks = []")
  case True
  then show ?thesis using assms by (simp add: resample_to_ohlcv_def)
next
  case False
  then obtain instants w where
    i: "those (map (\<lambda>t. to_datetime L (ts t)) ticks) = Some instants"
    and w: "rule_width rule = Some w"
    using assms by (auto simp add: resample_to_ohlcv_def split: option.splits)
  define rows where "rows = sort_key fst (zip instants ticks)"
  define ohlcv where "ohlcv = filter (\<lambda>r. \<not> all_nan r) (map (aggregate w rows) (bins w rows))"
  have df: "df = (if ohlcv = [] then [] else map finish_row (fill_prices ohlcv))"
    using assms False i w by (auto simp add: resample_to_ohlcv_def Let_def rows_def ohlcv_def)
  have "map b_ts (map (aggregate w rows) (bins w rows)) = bins w rows"
    by (simp add: o_def b_ts_aggregate)
  then have "distinct (map b_ts (map (aggregate w rows) (bins w rows)))"
    using distinct_bins[OF rule_width_pos[OF w]] by simp
  then have d: "distinct (map b_ts ohlcv)"
    unfolding ohlcv_def by (rule distinct_map_filter)
  have "map c_ts (map finish_row (fill_prices ohlcv)) = map b_ts ohlcv"
    using map_b_ts_fill_prices[of ohlcv] by (simp add: o_def c_ts_finish_row)
  then show ?thesis using d df by (simp del: map_map)
qed

lemma fold_max_ge: "(x::real) \<le> fold max xs x" "\<forall>y\<in>set xs. y \<le> fold max xs x"
proof -
  have "x \<le> fold max xs x \<and> (\<forall>y\<in>set xs. y \<le> fold max xs x)"
  proof (induction xs arbitrary: x)
    case Nil
    then show ?case by simp
  next
    case (Cons a xs)
    have "max a x \<le> fold max xs (max a x)" using Cons.IH[of "max a x"] by simp
    then show ?case using Cons.IH[of "max a x"] by auto
  qed
  then show "x \<le> fold max xs x" "\<forall>y\<in>set xs. y \<le> fold max xs x" by simp_all
qed

lemma fold_min_le: "fold min xs (x::real) \<le> x" "\<forall>y\<in>set xs. fold min xs x \<le> y"
proof -
  have "fold min xs x \<le> x \<and> (\<forall>y\<in>set xs. fold min xs x \<le> y)"
  proof (induction xs arbitrary: x)
    case Nil
    then show ?case by simp
  next
    case (Cons a xs)
    have "fold min xs (min a x) \<le> min a x" using Cons.IH[of "min a x"] by simp
    then show ?case using Cons.IH[of "min a x"] by auto
  qed
  then show "fold min xs x \<le> x" "\<forall>y\<in>set xs. fold min xs x \<le> y" by simp_all
qed

lemma fold_max_in: "fold max xs (x::real) \<in> set (x # xs)"
  by (induction xs arbitrary: x) (auto simp add: max_def)

lemma fold_min_in: "fold min xs (x::real) \<in> set (x # xs)"
  by (induction xs arbitrary: x) (auto simp add: min_def)

lemma max_list_bound:
  assumes "v \<in> set vs"
  shows "\<exists>m. max_list vs = Some m \<and> v \<le> m"
proof (cases vs)
  case Nil
  then show ?thesis using assms by simp
next
  case (Cons x xs)
  then show ?thesis using assms fold_max_ge[where x = x and xs = xs] by auto
qed

lemma min_list_bound:
  assumes "v \<in> set vs"
  shows "\<exists>m. min_list vs = Some m \<and> m \<le> v"
proof (cases vs)
  case Nil
  then show ?thesis using assms by simp
next
  case (Cons x xs)
  then show ?thesis using assms fold_min_le[where x = x and xs = xs] by auto
qed

lemma set_map_filter_id: "set (List.map_filter id cells) = {v. Some v \<in> set cells}"
  by (induction cells) (auto simp add: List.map_filter_simps split: option.splits)

lemma row_max_bound: "Some v \<in> set cells \<Longrightarrow> \<exists>m. row_max cells = Some m \<and> v \<le> m"
  unfolding row_max_def by (rule max_list_bound) (simp add: set_map_filter_id)

lemma row_min_bound: "Some v \<in> set cells \<Longrightarrow> \<exists>m. row_min cells = Some m \<and> m \<le> v"
  unfolding row_min_def by (rule min_list_bound) (simp add: set_map_filter_id)

text \<open>A row that leaves \<^verbatim>\<open>resample_to_ohlcv\<close> with its open and close not NaN has its high
  and low not NaN either, and they bound the open and the close.\<close>

lemma finish_row_hierarchy:
  assumes "b_open r = Some opn" "b_close r = Some cl"
  shows "hierarchy_ok (finish_row r)"
proof -
  let ?cells = "[b_open r, b_high r, b_low r, b_close r]"
  obtain hi where hi: "row_max ?cells = Some hi" and h1: "opn \<le> hi"
    using row_max_bound[of opn ?cells] assms by auto
  have h2: "cl \<le> hi" using row_max_bound[of cl ?cells] assms hi by auto
  let ?cells' = "[b_open r, Some hi, b_low r, b_close r]"
  obtain lo where lo: "row_min ?cells' = Some lo" and l1: "lo \<le> opn"
    using row_min_bound[of opn ?cells'] assms by auto
  have l2: "lo \<le> cl" using row_min_bound[of cl ?cells'] assms lo by auto
  show ?thesis using assms hi lo h1 h2 l1 l2
    by (simp add: hierarchy_ok_def finish_row_def Let_def)
qed

lemma those_map_Some: "those xs = Some ys \<Longrightarrow> xs = map Some ys"
  by (induction xs arbitrary: ys) (auto split: option.splits)

lemma zip_those_member:
  assumes "those (map f ticks) = Some instants" and "(i, t) \<in> set (zip instants ticks)"
  shows "t \<in> set ticks \<and> f t = Some i"
proof -
  have m: "map f ticks = map Some instants" using those_map_Some[OF assms(1)] .
  obtain n where n: "n < length instants" "n < length ticks" "instants ! n = i" "ticks ! n = t"
    using assms(2) by (auto simp add: set_zip)
  have "f (ticks ! n) = map f ticks ! n" using n by simp
  also have "\<dots> = Some (instants ! n)" using n by (simp add: m)
  finally show ?thesis using n by auto
qed

text \<open>A row survives \<^verbatim>\<open>dropna(how='all')\<close> only if its bin holds a tick.\<close>

lemma aggregate_not_all_nan:
  assumes "\<not> all_nan (aggregate w rows b)"
  shows "\<exists>r\<in>set rows. bucket_of w (fst r) = b"
proof (rule ccontr)
  assume "\<not> (\<exists>r\<in>set rows. bucket_of w (fst r) = b)"
  then have "filter (\<lambda>r. bucket_of w (fst r) = b) rows = []" by (simp add: filter_empty_conv)
  then have "all_nan (aggregate w rows b)" by (simp add: aggregate_def all_nan_def)
  then show False using assms by simp
qed

lemma first_opt_nz:
  "ps \<noteq> [] \<Longrightarrow> \<forall>p\<in>set ps. p \<noteq> (0::real) \<Longrightarrow> \<exists>v. first_opt ps = Some v \<and> v \<noteq> 0"
  by (cases ps) auto

lemma last_opt_nz:
  assumes "ps \<noteq> []" "\<forall>p\<in>set ps. p \<noteq> (0::real)"
  shows "\<exists>v. last_opt ps = Some v \<and> v \<noteq> 0"
proof -
  have "last ps \<in> set ps" using assms(1) by (rule last_in_set)
  moreover have "last_opt ps = Some (last ps)" using assms(1) by (cases ps) auto
  ultimately show ?thesis using assms(2) by auto
qed

lemma max_list_nz:
  assumes "ps \<noteq> []" "\<forall>p\<in>set ps. p \<noteq> (0::real)"
  shows "\<exists>v. max_list ps = Some v \<and> v \<noteq> 0"
proof -
  obtain p ps' where c: "ps = p # ps'" using assms(1) by (cases ps) auto
  have "fold max ps' p \<in> set ps" using fold_max_in[of ps' p] by (simp add: c)
  then show ?thesis using assms(2) by (auto simp add: c)
qed

lemma min_list_nz:
  assumes "ps \<noteq> []" "\<forall>p\<in>set ps. p \<noteq> (0::real)"
  shows "\<exists>v. min_list ps = Some v \<and> v \<noteq> 0"
proof -
  obtain p ps' where c: "ps = p # ps'" using assms(1) by (cases ps) auto
  have "fold min ps' p \<in> set ps" using fold_min_in[of ps' p] by (simp add: c)
  then show ?thesis using assms(2) by (auto simp add: c)
qed

lemma aggregate_cells:
  assumes "r \<in> set rows" "bucket_of w (fst r) = b" "\<forall>r\<in>set rows. price (snd r) \<noteq> 0"
  shows "solid (b_open (aggregate w rows b)) \<and> solid (b_high (aggregate w rows b))
         \<and> solid (b_low (aggregate w rows b)) \<and> solid (b_close (aggregate w rows b))"
proof -
  define ps where "ps = map price (map snd (filter (\<lambda>r. bucket_of w (fst r) = b) rows))"
  have ne: "ps \<noteq> []" using assms(1,2) by (auto simp add: ps_def filter_empty_conv)
  have nz: "\<forall>p\<in>set ps. p \<noteq> 0" using assms(3) by (auto simp add: ps_def)
  have "b_open (aggregate w rows b) = first_opt ps" "b_high (aggregate w rows b) = max_list ps"
    "b_low (aggregate w rows b) = min_list ps" "b_close (aggregate w rows b) = last_opt ps"
    by (simp_all add: aggregate_def Let_def ps_def)
  then show ?thesis
    using first_opt_nz[OF ne nz] max_list_nz[OF ne nz] min_list_nz[OF ne nz] last_opt_nz[OF ne nz]
    by (simp add: solid_def)
qed

lemma ffill_from_all_Some: "\<forall>c\<in>set xs. c \<noteq> None \<Longrightarrow> ffill_from p xs = xs"
  by (induction p xs rule: ffill_from.induct) simp_all

lemma fill_column_solid:
  assumes "\<forall>c\<in>set col. solid c"
  shows "fill_column col = col"
proof -
  have z: "map zero_to_nan col = col"
    using assms by (intro map_idI) (auto simp add: solid_def zero_to_nan_def)
  have s: "\<forall>c\<in>set col. c \<noteq> None" using assms by (auto simp add: solid_def)
  then have s': "\<forall>c\<in>set (rev col). c \<noteq> None" by simp
  show ?thesis
    by (simp add: fill_column_def z bfill_def ffill_def ffill_from_all_Some[OF s]
          ffill_from_all_Some[OF s'])
qed

lemma rebuild_rows:
  "map (\<lambda>(r, opn, hi, lo, cl). r\<lparr>b_open := opn, b_high := hi, b_low := lo, b_close := cl\<rparr>)
     (zip rows (zip (map b_open rows) (zip (map b_high rows)
        (zip (map b_low rows) (map b_close rows))))) = rows"
  by (induction rows) simp_all

lemma fill_prices_solid:
  assumes "\<forall>r\<in>set rows. solid (b_open r) \<and> solid (b_high r) \<and> solid (b_low r) \<and> solid (b_close r)"
  shows "fill_prices rows = rows"
proof -
  have "fill_column (map b_open rows) = map b_open rows"
    "fill_column (map b_high rows) = map b_high rows"
    "fill_column (map b_low rows) = map b_low rows"
    "fill_column (map b_close rows) = map b_close rows"
    using assms by (simp_all add: fill_column_solid)
  then show ?thesis unfolding fill_prices_def by (simp only: rebuild_rows)
qed

text \<open>The shape of every frame that \<^verbatim>\<open>resample_to_ohlcv\<close> returns for a non-empty tick list.\<close>

lemma resample_unfold:
  assumes "resample_to_ohlcv L ticks rule = Inr df" and "ticks \<noteq> []"
  obtains instants w where
    "those (map (\<lambda>t. to_datetime L (ts t)) ticks) = Some instants"
    "rule_width rule = Some w"
    "df = map finish_row (fill_prices (filter (\<lambda>r. \<not> all_nan r)
            (map (aggregate w (sort_key fst (zip instants ticks)))
                 (bins w (sort_key fst (zip instants ticks))))))"
proof -
  obtain instants w where
    i: "those (map (\<lambda>t. to_datetime L (ts t)) ticks) = Some instants"
    and w: "rule_width rule = Some w"
    using assms by (auto simp add: resample_to_ohlcv_def split: option.splits)
  have "df = map finish_row (fill_prices (filter (\<lambda>r. \<not> all_nan r)
            (map (aggregate w (sort_key fst (zip instants ticks)))
                 (bins w (sort_key fst (zip instants ticks))))))"
    using assms i w
    by (auto simp add: resample_to_ohlcv_def Let_def fill_prices_def split: if_splits)
  then show ?thesis using that i w by blast
qed

lemma kept_row_has_tick:
  assumes "r \<in> set (filter (\<lambda>r. \<not> all_nan r) (map (aggregate w rows) bs))"
  shows "\<exists>row\<in>set rows. bucket_of w (fst row) = b_ts r"
    and "\<forall>row\<in>set rows. price (snd row) \<noteq> 0 \<Longrightarrow>
           solid (b_open r) \<and> solid (b_high r) \<and> solid (b_low r) \<and> solid (b_close r)"
proof -
  obtain b where b: "r = aggregate w rows b" "\<not> all_nan (aggregate w rows b)"
    using assms by auto
  obtain row where row: "row \<in> set rows" "bucket_of w (fst row) = b"
    using aggregate_not_all_nan[OF b(2)] by blast
  show "\<exists>row\<in>set rows. bucket_of w (fst row) = b_ts r"
    using row by (auto simp add: b(1) b_ts_aggregate)
  show "solid (b_open r) \<and> solid (b_high r) \<and> solid (b_low r) \<and> solid (b_close r)"
    if "\<forall>row\<in>set rows. price (snd row) \<noteq> 0"
    using aggregate_cells[OF row that] by (simp add: b(1))
qed

text \<open>No candle for a bin without ticks: the start of every candle is the bin of a tick.\<close>

lemma resample_no_empty_bucket:
  assumes "resample_to_ohlcv L ticks rule = Inr df" and "c \<in> set df"
  shows "\<exists>t\<in>set ticks. \<exists>i w. to_datetime L (ts t) = Some i \<and> rule_width rule = Some w
           \<and> c_ts c = bucket_of w i"
proof -
  have ne: "ticks \<noteq> []" using assms by (auto simp add: resample_to_ohlcv_def)
  obtain instants w where
    i: "those (map (\<lambda>t. to_datetime L (ts t)) ticks) = Some instants"
    and w: "rule_width rule = Some w"
    and df: "df = map finish_row (fill_prices (filter (\<lambda>r. \<not> all_nan r)
            (map (aggregate w (sort_key fst (zip instants ticks)))
                 (bins w (sort_key fst (zip instants ticks))))))"
    using resample_unfold[OF assms(1) ne] by blast
  define rows where "rows = sort_key fst (zip instants ticks)"
  define ohlcv where "ohlcv = filter (\<lambda>r. \<not> all_nan r) (map (aggregate w rows) (bins w rows))"
  have "map c_ts df = map b_ts ohlcv"
    using map_b_ts_fill_prices[of ohlcv]
    by (simp add: df ohlcv_def rows_def o_def c_ts_finish_row)
  then have "c_ts c \<in> set (map b_ts ohlcv)" using assms(2) by (metis image_eqI set_map)
  then obtain r where r: "r \<in> set ohlcv" "b_ts r = c_ts c" by auto
  obtain row where row: "row \<in> set rows" "bucket_of w (fst row) = b_ts r"
    using kept_row_has_tick(1)[of r w rows "bins w rows"] r(1) by (auto simp add: ohlcv_def)
  have "(fst row, snd row) \<in> set (zip instants ticks)" using row(1) by (simp add: rows_def)
  then have "snd row \<in> set ticks \<and> to_datetime L (ts (snd row)) = Some (fst row)"
    using zip_those_member[OF i] by blast
  then have "snd row \<in> set ticks" "to_datetime L (ts (snd row)) = Some (fst row)"
    "rule_width rule = Some w" "c_ts c = bucket_of w (fst row)"
    using row(2) r(2) w by simp_all
  then show ?thesis by blast
qed

text \<open>A candle whose open and close are not NaN has the price hierarchy.\<close>

lemma resample_hierarchy_defined:
  assumes "resample_to_ohlcv L ticks rule = Inr df" and "c \<in> set df"
    and "c_open c \<noteq> None" and "c_close c \<noteq> None"
  shows "hierarchy_ok c"
proof -
  have ne: "ticks \<noteq> []" using assms by (auto simp add: resample_to_ohlcv_def)
  obtain rows' where "df = map finish_row rows'"
    using resample_unfold[OF assms(1) ne] by blast
  then obtain r where r: "c = finish_row r" using assms(2) by auto
  have "b_open r \<noteq> None" "b_close r \<noteq> None"
    using assms(3,4) by (simp_all add: r finish_row_def Let_def)
  then show ?thesis using finish_row_hierarchy[of r] by (auto simp add: r)
qed

text \<open>When no tick has the price 0, no cell is NaN and every candle has the hierarchy.\<close>

lemma resample_hierarchy_nonzero:
  assumes "resample_to_ohlcv L ticks rule = Inr df" and "c \<in> set df"
    and nz: "\<forall>t\<in>set ticks. price t \<noteq> 0"
  shows "hierarchy_ok c"
proof -
  have ne: "ticks \<noteq> []" using assms by (auto simp add: resample_to_ohlcv_def)
  obtain instants w where
    df: "df = map finish_row (fill_prices (filter (\<lambda>r. \<not> all_nan r)
            (map (aggregate w (sort_key fst (zip instants ticks)))
                 (bins w (sort_key fst (zip instants ticks))))))"
    using resample_unfold[OF assms(1) ne] by blast
  define rows where "rows = sort_key fst (zip instants ticks)"
  define ohlcv where "ohlcv = filter (\<lambda>r. \<not> all_nan r) (map (aggregate w rows) (bins w rows))"
  have rnz: "\<forall>row\<in>set rows. price (snd row) \<noteq> 0"
    using nz by (auto simp add: rows_def dest: set_zip_rightD)
  have solid: "\<forall>r\<in>set ohlcv. solid (b_open r) \<and> solid (b_high r) \<and> solid (b_low r) \<and> solid (b_close r)"
    using kept_row_has_tick(2)[OF _ rnz] by (auto simp add: ohlcv_def)
  have "df = map finish_row ohlcv"
    using fill_prices_solid[OF solid] by (simp add: df ohlcv_def rows_def)
  then obtain r where r: "c = finish_row r" "r \<in> set ohlcv" using assms(2) by auto
  then obtain opn cl where "b_open r = Some opn" "b_close r = Some cl"
    using solid by (auto simp add: solid_def)
  then show ?thesis using finish_row_hierarchy by (simp add: r(1))
qed


text \<open>
  \<^bold>\<open>C6.\<close> The claim is that every candle of \<^verbatim>\<open>resample_to_ohlcv\<close> on a non-empty tick list has
  high \<open>\<ge>\<close> max(open, close) and low \<open>\<le>\<close> min(open, close) after the filling step, and that a
  bin without ticks gives no candle. The second half holds (\<open>resample_no_empty_bucket\<close>), and
  the first holds for every candle whose open and close are not NaN
  (\<open>resample_hierarchy_defined\<close>), so whenever no trade has the price 0
  (\<open>resample_hierarchy_nonzero\<close>). On a single trade at the price 0 the code replaces the
  four prices by NaN, finds no neighbour to fill them from, and returns a candle whose
  prices are all NaN: the hierarchy does not hold for it.
\<close>

theorem resample_zero_price_breaks_hierarchy:
  "resample_to_ohlcv demo_libs
     [\<lparr>symbol = ''X'', price = 0, qty = 1, ts = ''1970-01-01T00:00:00+00:00''\<rparr>] ''1min''
     = Inr [\<lparr>c_ts = 0, c_open = None, c_high = None, c_low = None, c_close = None,
              c_volume = 1\<rparr>]
   \<and> \<not> hierarchy_ok \<lparr>c_ts = 0 :: timestamp, c_open = None, c_high = None, c_low = None,
                        c_close = None, c_volume = 1\<rparr>"
proof -
  have "resample_to_ohlcv demo_libs
     [\<lparr>symbol = ''X'', price = 0, qty = 1, ts = ''1970-01-01T00:00:00+00:00''\<rparr>] ''1min''
     = Inr [\<lparr>c_ts = 0, c_open = None, c_high = None, c_low = None, c_close = None,
              c_volume = 1\<rparr>]"
    by code_simp
  then show ?thesis by (simp add: hierarchy_ok_def)
qed

section \<open>Pair analytics\<close>

lemma apply_limit_drop: "\<exists>n. apply_limit limit xs = drop n xs"
proof (cases limit)
  case None
  then have "apply_limit limit xs = drop 0 xs" by simp
  then show ?thesis by blast
next
  case (Some n)
  then show ?thesis
    by (cases "n = 0") (auto simp add: last_n_def intro: exI[of _ 0])
qed

lemma close_series_distinct:
  assumes "distinct (map c_ts df)"
  shows "distinct (map fst (close_series limit df))"
proof -
  obtain n where n: "apply_limit limit df = drop n df" using apply_limit_drop by blast
  have "map fst (close_series limit df) = drop n (map c_ts df)"
    by (simp add: close_series_def n o_def drop_map)
  then show ?thesis using assms by simp
qed

lemma get_price_series_distinct:
  assumes "get_price_series L s symb tf limit True = Inr (prices, s1)"
  shows "distinct (map fst prices)"
proof -
  let ?ticks = "buffer_of s (normalize_symbol symb)"
  show ?thesis
  proof (cases "?ticks = []")
    case True
    then show ?thesis using assms by (simp add: get_price_series_def Let_def)
  next
    case False
    then obtain df where df: "resample_to_ohlcv L ?ticks (timeframe_to_pandas_rule tf) = Inr df"
      using assms
      by (cases "resample_to_ohlcv L ?ticks (timeframe_to_pandas_rule tf)")
         (auto simp add: get_price_series_def Let_def)
    have "prices = [] \<or> prices = close_series limit df"
      using assms False df by (auto simp add: get_price_series_def Let_def split: if_splits)
    then show ?thesis using close_series_distinct[OF resample_distinct[OF df]] by auto
  qed
qed

lemma map_fst_align:
  "map fst (align pa pb)
     = map fst (filter (\<lambda>(t, a). a \<noteq> None \<and> (\<exists>y. map_of pb t = Some (Some y))) pa)"
  by (induction pa) (auto simp add: align_def List.map_filter_simps split: option.splits)

lemma align_distinct: "distinct (map fst pa) \<Longrightarrow> distinct (map fst (align pa pb))"
  by (simp add: map_fst_align distinct_map_filter)

lemma align_keys_in_b: "t \<in> set (map fst (align pa pb)) \<Longrightarrow> t \<in> fst ` set pb"
  by (auto simp add: map_fst_align dest!: map_of_SomeD intro: rev_image_eqI)

lemma length_align_le_a: "length (align pa pb) \<le> length pa"
proof -
  have "length (align pa pb) = length (map fst (align pa pb))" by simp
  also have "\<dots> \<le> length pa" by (simp only: map_fst_align length_map length_filter_le)
  finally show ?thesis .
qed

lemma length_align_le_b:
  assumes "distinct (map fst pa)"
  shows "length (align pa pb) \<le> length pb"
proof -
  have "length (align pa pb) = card (set (map fst (align pa pb)))"
    using distinct_card[OF align_distinct[OF assms, of pb]] by simp
  also have "\<dots> \<le> card (fst ` set pb)"
    using align_keys_in_b[of _ pa pb] by (intro card_mono) auto
  also have "\<dots> \<le> card (set pb)" by (rule card_image_le) simp
  also have "\<dots> \<le> length pb" by (rule card_length)
  finally show ?thesis .
qed

lemma map_filter_all_Some:
  "\<forall>x\<in>set xs. f x \<noteq> None \<Longrightarrow> List.map_filter f xs = map (\<lambda>x. the (f x)) xs"
  by (induction xs) (auto simp add: List.map_filter_simps)

lemma map_filter_all_None:
  "\<forall>x\<in>set xs. f x = None \<Longrightarrow> List.map_filter f xs = []"
  by (induction xs) (auto simp add: List.map_filter_simps)

lemma window_props:
  assumes "1 \<le> ew" "ew \<le> i" "i \<le> length df"
  shows "take ew (drop (i - ew) df) \<noteq> []"
    and "last (take ew (drop (i - ew) df)) = df ! (i - 1)"
proof -
  let ?w = "take ew (drop (i - ew) df)"
  have len: "length ?w = ew" using assms by simp
  then show ne: "?w \<noteq> []" using assms(1) by auto
  have "last ?w = ?w ! (ew - 1)" using ne len by (simp add: last_conv_nth)
  also have "\<dots> = df ! (i - ew + (ew - 1))" using assms by simp
  also have "i - ew + (ew - 1) = i - 1" using assms by simp
  finally show "last ?w = df ! (i - 1)" .
qed

lemma upt_shift_drop:
  assumes "1 \<le> ew" "ew \<le> length df"
  shows "map (\<lambda>i. f (df ! (i - 1))) [ew ..< length df + 1] = map f (drop (ew - 1) df)"
proof (rule nth_equalityI)
  show "length (map (\<lambda>i. f (df ! (i - 1))) [ew ..< length df + 1]) = length (map f (drop (ew - 1) df))"
    using assms by (simp del: upt_Suc)
next
  fix j assume "j < length (map (\<lambda>i. f (df ! (i - 1))) [ew ..< length df + 1])"
  then have j: "j < length df + 1 - ew" by (simp del: upt_Suc)
  then have "map (\<lambda>i. f (df ! (i - 1))) [ew ..< length df + 1] ! j = f (df ! (ew + j - 1))"
    by (simp del: upt_Suc)
  moreover have "map f (drop (ew - 1) df) ! j = f (df ! (ew - 1 + j))"
    using j assms by simp
  moreover have "ew + j - 1 = ew - 1 + j" using assms by simp
  ultimately show "map (\<lambda>i. f (df ! (i - 1))) [ew ..< length df + 1] ! j = map f (drop (ew - 1) df) ! j"
    by simp
qed

text \<open>When every window's fit returns, there is one point per window.\<close>

lemma rolling_hedge_ratios_total:
  assumes "1 \<le> ew" "ew \<le> length df"
    and fit: "\<forall>i. ew \<le> i \<and> i \<le> length df \<longrightarrow>
            fit_ratio L method (map (\<lambda>r. fst (snd r)) (take ew (drop (i - ew) df)))
                               (map (\<lambda>r. snd (snd r)) (take ew (drop (i - ew) df))) \<noteq> None"
  shows "map pt_ts (rolling_hedge_ratios L method ew df) = map fst (drop (ew - 1) df)"
    and "length (rolling_hedge_ratios L method ew df) = length df - ew + 1"
proof -
  let ?h = "\<lambda>i. hedge_ratio_at L method (take ew (drop (i - ew) df))"
  have some: "\<forall>i\<in>set [ew ..< length df + 1]. ?h i \<noteq> None"
    using fit window_props(1)[OF assms(1)] assms(2)
    by (auto simp add: hedge_ratio_at_def simp del: upt_Suc split: option.splits)
  have ts: "pt_ts (the (?h i)) = fst (df ! (i - 1))" if "ew \<le> i" "i \<le> length df" for i
    using fit that window_props[OF assms(1) that]
    by (auto simp add: hedge_ratio_at_def split: option.splits)
  have eq: "rolling_hedge_ratios L method ew df = map (\<lambda>i. the (?h i)) [ew ..< length df + 1]"
    unfolding rolling_hedge_ratios_def using map_filter_all_Some[OF some] .
  have "map pt_ts (rolling_hedge_ratios L method ew df)
          = map (\<lambda>i. fst (df ! (i - 1))) [ew ..< length df + 1]"
    using ts by (simp add: eq del: upt_Suc)
  then show "map pt_ts (rolling_hedge_ratios L method ew df) = map fst (drop (ew - 1) df)"
    using upt_shift_drop[OF assms(1,2), of fst] by simp
  show "length (rolling_hedge_ratios L method ew df) = length df - ew + 1"
    using assms by (simp add: eq del: upt_Suc)
qed

lemma fit_ratio_unknown:
  assumes "upper method \<notin> {''OLS'', ''HUBER'', ''THEIL-SEN'', ''KALMAN''}"
  shows "fit_ratio L method y x = Some 1"
  using assms by (simp add: fit_ratio_def)

lemma rolling_hedge_ratios_unknown:
  assumes "upper method \<notin> {''OLS'', ''HUBER'', ''THEIL-SEN'', ''KALMAN''}"
    and "ew \<le> length df"
  shows "rolling_hedge_ratios L method ew df
           = (if ew = 0 then [] else map (\<lambda>r. \<lparr>pt_ts = fst r, pt_value = 1\<rparr>) (drop (ew - 1) df))"
proof (cases "ew = 0")
  case True
  then show ?thesis
    by (simp add: rolling_hedge_ratios_def hedge_ratio_at_def fit_ratio_unknown[OF assms(1)]
          map_filter_all_None del: upt_Suc)
next
  case False
  then have ew: "1 \<le> ew" by simp
  let ?h = "\<lambda>i. hedge_ratio_at L method (take ew (drop (i - ew) df))"
  have h: "?h i = Some \<lparr>pt_ts = fst (df ! (i - 1)), pt_value = 1\<rparr>"
    if "ew \<le> i" "i \<le> length df" for i
    using window_props[OF ew that] by (simp add: hedge_ratio_at_def fit_ratio_unknown[OF assms(1)])
  then have some: "\<forall>i\<in>set [ew ..< length df + 1]. ?h i \<noteq> None" by (auto simp del: upt_Suc)
  have "rolling_hedge_ratios L method ew df = map (\<lambda>i. the (?h i)) [ew ..< length df + 1]"
    unfolding rolling_hedge_ratios_def using map_filter_all_Some[OF some] .
  also have "\<dots> = map (\<lambda>i. \<lparr>pt_ts = fst (df ! (i - 1)), pt_value = 1\<rparr>) [ew ..< length df + 1]"
    using h by (simp del: upt_Suc)
  also have "\<dots> = map (\<lambda>r. \<lparr>pt_ts = fst r, pt_value = 1\<rparr>) (drop (ew - 1) df)"
    using upt_shift_drop[OF ew assms(2), of "\<lambda>r. \<lparr>pt_ts = fst r, pt_value = (1::real)\<rparr>"] by simp
  finally show ?thesis using False by simp
qed

lemma get_price_series_buffers:
  assumes "get_price_series L s symb tf limit True = Inr (prices, s1)"
  shows "buffer_of s1 k = buffer_of s k"
proof -
  let ?ticks = "buffer_of s (normalize_symbol symb)"
  show ?thesis
  proof (cases "?ticks = []")
    case True
    then show ?thesis using assms by (auto simp add: get_price_series_def Let_def buffer_of_touch)
  next
    case False
    then obtain df where df: "resample_to_ohlcv L ?ticks (timeframe_to_pandas_rule tf) = Inr df"
      using assms
      by (cases "resample_to_ohlcv L ?ticks (timeframe_to_pandas_rule tf)")
         (auto simp add: get_price_series_def Let_def)
    have "s1 = touch_buffer s (normalize_symbol symb) \<or>
          s1 = (touch_buffer s (normalize_symbol symb))\<lparr>ohlcv_cache :=
                 (ohlcv_cache (touch_buffer s (normalize_symbol symb)))((normalize_symbol symb, tf) \<mapsto> df)\<rparr>"
      using assms False df by (auto simp add: get_price_series_def Let_def split: if_splits)
    then show ?thesis using buffer_of_touch[of s "normalize_symbol symb" k]
      by (auto simp add: buffer_of_def)
  qed
qed

lemma get_price_series_cong:
  assumes "\<forall>k. buffer_of s' k = buffer_of s k"
  shows "map_sum id fst (get_price_series L s' symb tf limit True)
           = map_sum id fst (get_price_series L s symb tf limit True)"
  using assms
  by (auto simp add: get_price_series_def Let_def split: sum.splits)


lemma flat_series_a:
  "map_sum id fst (get_price_series demo_libs flat_state ''A'' ''1m'' (series_limit 2) True)
     = Inr [(0, Some 100), (60000000000, Some 100), (120000000000, Some 100)]"
  by code_simp

lemma flat_series_b:
  "map_sum id fst (get_price_series demo_libs flat_state ''B'' ''1m'' (series_limit 2) True)
     = Inr [(0, Some 50), (60000000000, Some 50), (120000000000, Some 50)]"
  by code_simp

lemma flat_align:
  "align [(0, Some 100), (60000000000, Some 100), (120000000000, Some 100)]
         [(0, Some 50), (60000000000, Some 50), (120000000000, Some 50)]
     = [(0, 100, 50), (60000000000, 100, 50), (120000000000, 100, 50)]"
  by code_simp

lemma upper_OLS: "upper ''OLS'' = ''OLS''"
  by code_simp

lemma upper_none: "upper ''none'' = ''NONE''"
  by code_simp

lemma demo_fit_ols: "x \<noteq> [] \<Longrightarrow> fit_ratio demo_libs ''OLS'' y x \<noteq> None"
  by (simp add: fit_ratio_def upper_OLS ols_hedge_ratio_def demo_libs_def least_squares_def Let_def)

text \<open>The two series the engine reads from the flat example, with the states between.\<close>

lemma flat_fetch:
  obtains s1 s2 where
    "get_price_series demo_libs flat_state ''A'' ''1m'' (series_limit 2) True
       = Inr ([(0, Some 100), (60000000000, Some 100), (120000000000, Some 100)], s1)"
    "get_price_series demo_libs s1 ''B'' ''1m'' (series_limit 2) True
       = Inr ([(0, Some 50), (60000000000, Some 50), (120000000000, Some 50)], s2)"
proof -
  obtain s1 where
    a: "get_price_series demo_libs flat_state ''A'' ''1m'' (series_limit 2) True
       = Inr ([(0, Some 100), (60000000000, Some 100), (120000000000, Some 100)], s1)"
    using flat_series_a
    by (cases "get_price_series demo_libs flat_state ''A'' ''1m'' (series_limit 2) True") auto
  have "\<forall>k. buffer_of s1 k = buffer_of flat_state k"
    using get_price_series_buffers[OF a] by simp
  then have "map_sum id fst (get_price_series demo_libs s1 ''B'' ''1m'' (series_limit 2) True)
     = Inr [(0, Some 50), (60000000000, Some 50), (120000000000, Some 50)]"
    using get_price_series_cong[of s1 flat_state demo_libs "''B''" "''1m''" "series_limit 2"]
          flat_series_b by simp
  then obtain s2 where
    b: "get_price_series demo_libs s1 ''B'' ''1m'' (series_limit 2) True
       = Inr ([(0, Some 50), (60000000000, Some 50), (120000000000, Some 50)], s2)"
    by (cases "get_price_series demo_libs s1 ''B'' ''1m'' (series_limit 2) True") auto
  show ?thesis using that a b by blast
qed


text \<open>The timestamps of the points come from the windows whose fit returns, in order.\<close>

lemma rolling_hedge_ratios_ts:
  assumes "1 \<le> ew" "ew \<le> length df"
  shows "map pt_ts (rolling_hedge_ratios L method ew df)
           = map (\<lambda>j. fst (last (take ew (drop j df))))
               (filter (\<lambda>j. fit_ratio L method (map (\<lambda>r. fst (snd r)) (take ew (drop j df)))
                                                (map (\<lambda>r. snd (snd r)) (take ew (drop j df))) \<noteq> None)
                  [0 ..< length df - ew + 1])"
proof -
  let ?h = "\<lambda>i. hedge_ratio_at L method (take ew (drop (i - ew) df))"
  let ?fit = "\<lambda>j. fit_ratio L method (map (\<lambda>r. fst (snd r)) (take ew (drop j df)))
                                     (map (\<lambda>r. snd (snd r)) (take ew (drop j df)))"
  let ?n = "length df - ew + 1"
  have range: "[ew ..< length df + 1] = map (\<lambda>j. j + ew) [0 ..< ?n]"
    using assms(2) map_add_upt[of ew ?n] by (simp del: upt_Suc)
  have ne: "take ew (drop j df) \<noteq> []" if "j < ?n" for j
    using window_props(1)[OF assms(1), of "j + ew" df] that assms(2) by simp
  let ?g = "\<lambda>j. hedge_ratio_at L method (take ew (drop j df))"
  have some: "(?g j \<noteq> None) = (?fit j \<noteq> None)" if "j < ?n" for j
    using ne[OF that] by (simp add: hedge_ratio_at_def split: option.splits)
  have ts: "pt_ts (the (?g j)) = fst (last (take ew (drop j df)))"
    if "j < ?n" "?fit j \<noteq> None" for j
    using ne[OF that(1)] that(2) by (auto simp add: hedge_ratio_at_def split: option.splits)
  have "map pt_ts (rolling_hedge_ratios L method ew df)
          = map (\<lambda>i. pt_ts (the (?h i))) (filter (\<lambda>i. ?h i \<noteq> None) [ew ..< length df + 1])"
    by (simp add: rolling_hedge_ratios_def List.map_filter_def o_def del: upt_Suc)
  also have "\<dots> = map (\<lambda>i. pt_ts (the (?h i)))
                       (filter (\<lambda>i. ?h i \<noteq> None) (map (\<lambda>j. j + ew) [0 ..< ?n]))"
    by (simp only: range)
  also have "\<dots> = map (\<lambda>j. pt_ts (the (?g j))) (filter (\<lambda>j. ?g j \<noteq> None) [0 ..< ?n])"
    by (simp add: filter_map o_def del: upt_Suc)
  also have "filter (\<lambda>j. ?g j \<noteq> None) [0 ..< ?n] = filter (\<lambda>j. ?fit j \<noteq> None) [0 ..< ?n]"
  proof (rule filter_cong)
    show "[0 ..< ?n] = [0 ..< ?n]" by (rule refl)
    fix j assume "j \<in> set [0 ..< ?n]"
    then have "j < ?n" by (simp del: upt_Suc)
    then show "(?g j \<noteq> None) = (?fit j \<noteq> None)" by (rule some)
  qed
  also have "map (\<lambda>j. pt_ts (the (?g j))) (filter (\<lambda>j. ?fit j \<noteq> None) [0 ..< ?n])
               = map (\<lambda>j. fst (last (take ew (drop j df)))) (filter (\<lambda>j. ?fit j \<noteq> None) [0 ..< ?n])"
  proof (rule map_cong)
    show "filter (\<lambda>j. ?fit j \<noteq> None) [0 ..< ?n] = filter (\<lambda>j. ?fit j \<noteq> None) [0 ..< ?n]"
      by (rule refl)
    fix j assume "j \<in> set (filter (\<lambda>j. ?fit j \<noteq> None) [0 ..< ?n])"
    then have "j < ?n" "?fit j \<noteq> None" by (simp_all del: upt_Suc)
    then show "pt_ts (the (?g j)) = fst (last (take ew (drop j df)))" by (rule ts)
  qed
  finally show ?thesis .
qed


text \<open>
  \<^bold>\<open>C3.\<close> The claim that \<^verbatim>\<open>compute_hedge_ratio\<close> returns exactly \<open>len - W + 1\<close> points whenever
  the aligned frame has \<open>len\<close> rows and \<open>2 \<le> W \<le> len\<close> fails: the \<^verbatim>\<open>try\<close> around each window catches
  a fit that raises and the loop goes on without a point for that window
  (\<open>hedge_ratio_fit_raises_counterexample\<close> below). What holds, with the two close-price
  series read and joined into an aligned frame of \<open>len\<close> rows without NaN and \<open>2 \<le> W \<le> len\<close>:
  the result has one point for each window of \<open>W\<close> consecutive rows on which the regression
  of the selected method returns, in order, with the last timestamp of that window; so it
  has at most \<open>len - W + 1\<close> points, and exactly \<open>len - W + 1\<close>, point \<open>j\<close> carrying the last
  timestamp of the window that starts at row \<open>j\<close>, when the regression returns on every
  window.
\<close>

theorem compute_hedge_ratio_windows:
  assumes pa: "get_price_series L s symbol_a timeframe (series_limit W) True = Inr (prices_a, s1)"
    and pb: "get_price_series L s1 symbol_b timeframe (series_limit W) True = Inr (prices_b, s2)"
    and W: "2 \<le> W" "W \<le> length (align prices_a prices_b)"
  shows "\<exists>pts. compute_hedge_ratio L s symbol_a symbol_b timeframe W method = Inr (pts, s2)
           \<and> map pt_ts pts
               = map (\<lambda>j. fst (last (take W (drop j (align prices_a prices_b)))))
                   (filter (\<lambda>j. fit_ratio L method
                       (map (\<lambda>r. fst (snd r)) (take W (drop j (align prices_a prices_b))))
                       (map (\<lambda>r. snd (snd r)) (take W (drop j (align prices_a prices_b)))) \<noteq> None)
                     [0 ..< length (align prices_a prices_b) - W + 1])
           \<and> length pts \<le> length (align prices_a prices_b) - W + 1
           \<and> ((\<forall>j. j + W \<le> length (align prices_a prices_b) \<longrightarrow>
                  fit_ratio L method
                    (map (\<lambda>r. fst (snd r)) (take W (drop j (align prices_a prices_b))))
                    (map (\<lambda>r. snd (snd r)) (take W (drop j (align prices_a prices_b)))) \<noteq> None)
                \<longrightarrow> length pts = length (align prices_a prices_b) - W + 1
                    \<and> (\<forall>j<length pts.
                          pt_ts (pts ! j) = fst (last (take W (drop j (align prices_a prices_b))))))"
proof -
  define df where "df = align prices_a prices_b"
  define n where "n = length df - W + 1"
  let ?fit = "\<lambda>j. fit_ratio L method (map (\<lambda>r. fst (snd r)) (take W (drop j df)))
                                     (map (\<lambda>r. snd (snd r)) (take W (drop j df)))"
  let ?pts = "rolling_hedge_ratios L method W df"
  have la: "2 \<le> length prices_a" using length_align_le_a[of prices_a prices_b] W by simp
  have lb: "2 \<le> length prices_b"
    using length_align_le_b[OF get_price_series_distinct[OF pa], of prices_b] W by simp
  have r: "compute_hedge_ratio L s symbol_a symbol_b timeframe W method = Inr (?pts, s2)"
    using pa pb la lb W by (simp add: compute_hedge_ratio_def Let_def df_def min_def)
  have one: "1 \<le> W" using W by simp
  have Wl: "W \<le> length df" using W by (simp add: df_def)
  have ts: "map pt_ts ?pts
              = map (\<lambda>j. fst (last (take W (drop j df)))) (filter (\<lambda>j. ?fit j \<noteq> None) [0 ..< n])"
    unfolding n_def by (rule rolling_hedge_ratios_ts[OF one Wl])
  have "length ?pts = length (filter (\<lambda>j. ?fit j \<noteq> None) [0 ..< n])"
    using arg_cong[OF ts, of length] by simp
  also have "\<dots> \<le> length [0 ..< n]" by (rule length_filter_le)
  finally have le: "length ?pts \<le> n" by simp
  have full: "length ?pts = n \<and> (\<forall>j<length ?pts. pt_ts (?pts ! j) = fst (last (take W (drop j df))))"
    if all: "\<forall>j. j + W \<le> length df \<longrightarrow> ?fit j \<noteq> None"
  proof -
    have "\<forall>j\<in>set [0 ..< n]. ?fit j \<noteq> None"
      using all Wl by (auto simp add: n_def simp del: upt_Suc)
    then have f: "filter (\<lambda>j. ?fit j \<noteq> None) [0 ..< n] = [0 ..< n]"
      by (simp only: filter_id_conv)
    have ts': "map pt_ts ?pts = map (\<lambda>j. fst (last (take W (drop j df)))) [0 ..< n]"
      using ts by (simp only: f)
    have len: "length ?pts = n" using arg_cong[OF ts', of length] by simp
    have "pt_ts (?pts ! j) = fst (last (take W (drop j df)))" if "j < length ?pts" for j
    proof -
      have "pt_ts (?pts ! j) = map pt_ts ?pts ! j" using that by simp
      also have "\<dots> = fst (last (take W (drop j df)))"
        using that len by (simp add: ts' del: upt_Suc)
      finally show ?thesis .
    qed
    then show ?thesis using len by simp
  qed
  show ?thesis using r ts le full unfolding n_def df_def by blast
qed


theorem compute_hedge_ratio_windows_witness:
  "(case compute_hedge_ratio demo_libs flat_state ''A'' ''B'' ''1m'' 2 ''OLS'' of
      Inl e \<Rightarrow> False
    | Inr (pts, s') \<Rightarrow>
        length pts = 2 \<and> pt_ts (pts ! 0) = 60000000000 \<and> pt_ts (pts ! 1) = 120000000000)"
proof -
  let ?pa = "[(0, Some 100), (60000000000, Some 100), (120000000000, Some (100::real))]"
  let ?pb = "[(0, Some 50), (60000000000, Some 50), (120000000000, Some (50::real))]"
  obtain s1 s2 where
    a: "get_price_series demo_libs flat_state ''A'' ''1m'' (series_limit 2) True = Inr (?pa, s1)"
    and b: "get_price_series demo_libs s1 ''B'' ''1m'' (series_limit 2) True = Inr (?pb, s2)"
    using flat_fetch by blast
  have w1: "(2::nat) \<le> 2" by simp
  have w2: "2 \<le> length (align ?pa ?pb)" by (simp add: flat_align)
  have fit: "\<forall>j. j + 2 \<le> length (align ?pa ?pb) \<longrightarrow>
                fit_ratio demo_libs ''OLS''
                  (map (\<lambda>r. fst (snd r)) (take 2 (drop j (align ?pa ?pb))))
                  (map (\<lambda>r. snd (snd r)) (take 2 (drop j (align ?pa ?pb)))) \<noteq> None"
    by (intro allI impI demo_fit_ols) (auto simp add: flat_align)
  obtain pts where
    r: "compute_hedge_ratio demo_libs flat_state ''A'' ''B'' ''1m'' 2 ''OLS'' = Inr (pts, s2)"
    and len: "length pts = length (align ?pa ?pb) - 2 + 1"
    and ts: "\<forall>j<length pts. pt_ts (pts ! j) = fst (last (take 2 (drop j (align ?pa ?pb))))"
    using compute_hedge_ratio_windows[OF a b w1 w2, of "''OLS''"] fit by blast
  have l2: "length pts = 2" using len by (simp add: flat_align)
  have "pt_ts (pts ! 0) = 60000000000" "pt_ts (pts ! 1) = 120000000000"
    using ts l2 by (simp_all add: flat_align)
  then show ?thesis using l2 by (simp add: r)
qed


lemma flat_huber:
  "map_sum id fst (compute_hedge_ratio demo_libs flat_state ''A'' ''B'' ''1m'' 2 ''HUBER'') = Inr []"
  by code_simp


text \<open>The flat example with a Huber fit that raises on both windows: the aligned frame has
  3 rows, the window is 2, and the result is empty where 2 points are claimed.\<close>

theorem hedge_ratio_fit_raises_counterexample:
  "map_sum id fst (get_price_series demo_libs flat_state ''A'' ''1m'' (series_limit 2) True)
     = Inr [(0, Some 100), (60000000000, Some 100), (120000000000, Some 100)]
   \<and> map_sum id fst (get_price_series demo_libs flat_state ''B'' ''1m'' (series_limit 2) True)
     = Inr [(0, Some 50), (60000000000, Some 50), (120000000000, Some 50)]
   \<and> length (align [(0, Some 100), (60000000000, Some 100), (120000000000, Some 100)]
                    [(0, Some 50), (60000000000, Some 50), (120000000000, Some 50)]) - 2 + 1 = 2
   \<and> map_sum id fst (compute_hedge_ratio demo_libs flat_state ''A'' ''B'' ''1m'' 2 ''HUBER'')
       = Inr []"
  using flat_series_a flat_series_b flat_huber by (simp add: flat_align)

text \<open>
  \<^bold>\<open>C9.\<close> For a method whose upper-case form is none of \<^verbatim>\<open>OLS\<close>, \<^verbatim>\<open>HUBER\<close>, \<^verbatim>\<open>THEIL-SEN\<close>,
  \<^verbatim>\<open>KALMAN\<close>, \<^verbatim>\<open>compute_hedge_ratio\<close> does not fail once the two price series are read: it
  returns one point per window, each with the window's last timestamp and the value 1.0
  (and no point where the source returns early or the window is 0).
\<close>

theorem unknown_method_constant_one:
  assumes m: "upper method \<notin> {''OLS'', ''HUBER'', ''THEIL-SEN'', ''KALMAN''}"
    and pa: "get_price_series L s symbol_a timeframe (series_limit W) True = Inr (prices_a, s1)"
    and pb: "get_price_series L s1 symbol_b timeframe (series_limit W) True = Inr (prices_b, s2)"
  shows "compute_hedge_ratio L s symbol_a symbol_b timeframe W method
           = Inr (if length prices_a < 2 \<or> length prices_b < 2
                     \<or> length (align prices_a prices_b) < 2 \<or> W = 0 then []
                  else map (\<lambda>r. \<lparr>pt_ts = fst r, pt_value = 1\<rparr>)
                         (drop (min W (length (align prices_a prices_b)) - 1)
                            (align prices_a prices_b)), s2)"
  using pa pb rolling_hedge_ratios_unknown[OF m, of "min W (length (align prices_a prices_b))"
           "align prices_a prices_b" L]
  by (auto simp add: compute_hedge_ratio_def Let_def)


theorem unknown_method_constant_one_witness:
  "upper ''none'' \<notin> {''OLS'', ''HUBER'', ''THEIL-SEN'', ''KALMAN''}
   \<and> map_sum id fst (compute_hedge_ratio demo_libs flat_state ''A'' ''B'' ''1m'' 2 ''none'')
       = Inr [\<lparr>pt_ts = 60000000000, pt_value = 1\<rparr>, \<lparr>pt_ts = 120000000000, pt_value = 1\<rparr>]"
proof -
  let ?pa = "[(0, Some 100), (60000000000, Some 100), (120000000000, Some (100::real))]"
  let ?pb = "[(0, Some 50), (60000000000, Some 50), (120000000000, Some (50::real))]"
  obtain s1 s2 where
    a: "get_price_series demo_libs flat_state ''A'' ''1m'' (series_limit 2) True = Inr (?pa, s1)"
    and b: "get_price_series demo_libs s1 ''B'' ''1m'' (series_limit 2) True = Inr (?pb, s2)"
    using flat_fetch by blast
  have m: "upper ''none'' \<notin> {''OLS'', ''HUBER'', ''THEIL-SEN'', ''KALMAN''}"
    by (simp add: upper_none)
  show ?thesis
    using unknown_method_constant_one[OF m a b] m by (simp add: flat_align)
qed


lemma map_filter_member:
  "f x = Some y \<Longrightarrow> x \<in> set xs \<Longrightarrow> y \<in> set (List.map_filter f xs)"
  by (force simp add: List.map_filter_def)

lemma rolling_std_Some_mean:
  "rolling_std w xs i = Some sd \<Longrightarrow> \<exists>m. rolling_mean w xs i = Some m"
  by (auto simp add: rolling_std_def rolling_mean_def split: if_splits)

lemma zscore_at_None: "zscore_at w spreads i = None \<longleftrightarrow> rolling_std w (map pt_value spreads) i = None"
proof (cases "rolling_std w (map pt_value spreads) i")
  case None
  then show ?thesis by (simp add: zscore_at_def split: option.splits)
next
  case (Some sd)
  then obtain m where "rolling_mean w (map pt_value spreads) i = Some m"
    using rolling_std_Some_mean by blast
  then show ?thesis using Some by (simp add: zscore_at_def)
qed

lemma zscore_at_ts: "zscore_at w spreads i = Some p \<Longrightarrow> pt_ts p = pt_ts (spreads ! i)"
  by (auto simp add: zscore_at_def split: option.splits)

lemma zscore_at_zero:
  assumes "rolling_std w (map pt_value spreads) i = Some 0"
  shows "zscore_at w spreads i = Some \<lparr>pt_ts = pt_ts (spreads ! i), pt_value = Some 0\<rparr>"
proof -
  obtain m where "rolling_mean w (map pt_value spreads) i = Some m"
    using rolling_std_Some_mean[OF assms] by blast
  then show ?thesis using assms
    by (simp add: zscore_at_def safe_division_def split: option.splits)
qed

lemma zscore_at_nonzero:
  assumes "rolling_mean w (map pt_value spreads) i = Some m"
    and "rolling_std w (map pt_value spreads) i = Some sd" and "sd \<noteq> 0"
    and "pt_value (spreads ! i) = Some v"
  shows "zscore_at w spreads i = Some \<lparr>pt_ts = pt_ts (spreads ! i), pt_value = Some ((v - m) / sd)\<rparr>"
  using assms by (simp add: zscore_at_def safe_division_def)

lemma zscore_points_ts:
  "map pt_ts (zscore_points w spreads)
     = map (\<lambda>i. pt_ts (spreads ! i))
         (filter (\<lambda>i. rolling_std w (map pt_value spreads) i \<noteq> None) [0 ..< length spreads])"
proof -
  have "map pt_ts (zscore_points w spreads)
          = map (\<lambda>i. pt_ts (the (zscore_at w spreads i)))
              (filter (\<lambda>i. zscore_at w spreads i \<noteq> None) [0 ..< length spreads])"
    by (simp add: zscore_points_def List.map_filter_def o_def)
  also have "\<dots> = map (\<lambda>i. pt_ts (spreads ! i))
              (filter (\<lambda>i. zscore_at w spreads i \<noteq> None) [0 ..< length spreads])"
    by (rule map_cong) (auto dest: zscore_at_ts)
  finally show ?thesis by (simp add: zscore_at_None)
qed


lemma upt_2: "[0 ..< 2] = [0, Suc 0]"
  by (simp add: upt_rec)

lemma flat_spread:
  "map_sum id fst (compute_spread demo_libs flat_state ''A'' ''B'' ''1m'' 2 ''OLS'')
     = Inr [\<lparr>pt_ts = 60000000000, pt_value = Some (100 / 2501)\<rparr>,
            \<lparr>pt_ts = 120000000000, pt_value = Some (100 / 2501)\<rparr>]"
  by code_simp

lemma flat_rolling_std:
  "rolling_std 2 [Some (100 / 2501), Some (100 / 2501)] (Suc 0) = Some 0"
  by (simp add: rolling_std_def rolling_window_def sample_std_def mean_def)


text \<open>
  \<^bold>\<open>C4.\<close> When the spread series that \<^verbatim>\<open>compute_adf_test\<close> computes has fewer than 20 points,
  the function returns, with exactly \<open>stat = 0.0\<close> and \<open>pvalue = 1.0\<close>.
\<close>

theorem adf_test_short_spread:
  assumes "compute_spread L s symbol_a symbol_b timeframe window method = Inr (spreads, s1)"
    and "length spreads < 20"
  shows "compute_adf_test L s symbol_a symbol_b timeframe window method
           = Inr (\<lparr>stat = 0, pvalue = 1\<rparr>, s1)"
  using assms by (simp add: compute_adf_test_def)

theorem adf_test_short_spread_witness:
  "(case compute_spread demo_libs flat_state ''A'' ''B'' ''1m'' 2 ''OLS'' of
      Inl e \<Rightarrow> False
    | Inr (spreads, s1) \<Rightarrow>
        length spreads = 2 \<and> length spreads < 20
        \<and> compute_adf_test demo_libs flat_state ''A'' ''B'' ''1m'' 2 ''OLS''
            = Inr (\<lparr>stat = 0, pvalue = 1\<rparr>, s1))"
proof -
  let ?sp = "[\<lparr>pt_ts = 60000000000, pt_value = Some (100 / 2501 :: real)\<rparr>,
            \<lparr>pt_ts = 120000000000, pt_value = Some (100 / 2501)\<rparr>]"
  obtain s1 where
    r: "compute_spread demo_libs flat_state ''A'' ''B'' ''1m'' 2 ''OLS'' = Inr (?sp, s1)"
    using flat_spread
    by (cases "compute_spread demo_libs flat_state ''A'' ''B'' ''1m'' 2 ''OLS''") auto
  have len: "length ?sp < 20" by simp
  show ?thesis using adf_test_short_spread[OF r len] by (simp add: r)
qed

lemma those_None_iff: "those xs = None \<longleftrightarrow> None \<in> set xs"
  by (induction xs) (auto split: option.splits)

text \<open>Where the rolling standard deviation is NaN: everywhere for a window below 2, at
  the positions before the window is full, and where a spread of the window is NaN.\<close>

lemma rolling_std_None_iff:
  "rolling_std w xs i = None
     \<longleftrightarrow> w < 2 \<or> i + 1 < w \<or> None \<in> set (take w (drop (i + 1 - w) xs))"
  by (simp add: rolling_std_def rolling_window_def those_None_iff)


text \<open>
  \<^bold>\<open>C1.\<close> The claim that the z-score series has no point where the rolling standard
  deviation of the spread is exactly 0 fails: on the two flat series the spread is
  constant, its rolling standard deviation at the last timestamp is 0, and the series has
  a point there, with the value 0.0 that \<^verbatim>\<open>safe_division\<close> returns by default
  (\<open>zscore_zero_std_counterexample\<close> below). What holds: when the spread series has \<open>n \<ge> 2\<close>
  points, \<^verbatim>\<open>compute_zscore\<close> returns one point for every position at which the rolling
  standard deviation over the effective window \<open>e = min(window, n)\<close> is defined (not NaN),
  in order; where that deviation is exactly 0 the point has the value 0.0 and nothing is
  divided; where it is not 0 the value is the spread minus the rolling mean, divided by
  the deviation. The positions left out are those where the deviation is NaN, which are
  all positions when \<open>e < 2\<close>, the first \<open>e - 1\<close> positions otherwise, and any position whose
  window holds a NaN spread.
\<close>

theorem compute_zscore_points:
  assumes sp: "compute_spread L s symbol_a symbol_b timeframe W method = Inr (spreads, s1)"
    and len: "2 \<le> length spreads"
  shows "\<exists>pts. compute_zscore L s symbol_a symbol_b timeframe W method = Inr (pts, s1)
     \<and> map pt_ts pts = map (\<lambda>i. pt_ts (spreads ! i))
          (filter (\<lambda>i. rolling_std (min W (length spreads)) (map pt_value spreads) i \<noteq> None)
             [0 ..< length spreads])
     \<and> (\<forall>i<length spreads.
           rolling_std (min W (length spreads)) (map pt_value spreads) i = Some 0 \<longrightarrow>
           \<lparr>pt_ts = pt_ts (spreads ! i), pt_value = Some 0\<rparr> \<in> set pts)
     \<and> (\<forall>i<length spreads. \<forall>m sd v.
           rolling_mean (min W (length spreads)) (map pt_value spreads) i = Some m
           \<and> rolling_std (min W (length spreads)) (map pt_value spreads) i = Some sd
           \<and> sd \<noteq> 0 \<and> pt_value (spreads ! i) = Some v \<longrightarrow>
           \<lparr>pt_ts = pt_ts (spreads ! i), pt_value = Some ((v - m) / sd)\<rparr> \<in> set pts)
     \<and> (\<forall>i<length spreads.
           rolling_std (min W (length spreads)) (map pt_value spreads) i = None
           \<longleftrightarrow> min W (length spreads) < 2 \<or> i + 1 < min W (length spreads)
               \<or> None \<in> set (take (min W (length spreads))
                               (drop (i + 1 - min W (length spreads)) (map pt_value spreads))))"
proof -
  let ?ew = "min W (length spreads)"
  let ?pts = "zscore_points ?ew spreads"
  have r: "compute_zscore L s symbol_a symbol_b timeframe W method = Inr (?pts, s1)"
    using sp len by (simp add: compute_zscore_def)
  have z: "\<lparr>pt_ts = pt_ts (spreads ! i), pt_value = Some 0\<rparr> \<in> set ?pts"
    if "i < length spreads" "rolling_std ?ew (map pt_value spreads) i = Some 0" for i
    unfolding zscore_points_def
    using map_filter_member[of "zscore_at ?ew spreads" i _ "[0 ..< length spreads]"]
          zscore_at_zero[OF that(2)] that(1)
    by simp
  have nz: "\<lparr>pt_ts = pt_ts (spreads ! i), pt_value = Some ((v - m) / sd)\<rparr> \<in> set ?pts"
    if "i < length spreads" "rolling_mean ?ew (map pt_value spreads) i = Some m"
       "rolling_std ?ew (map pt_value spreads) i = Some sd" "sd \<noteq> 0"
       "pt_value (spreads ! i) = Some v" for i m sd v
    unfolding zscore_points_def
    using map_filter_member[of "zscore_at ?ew spreads" i _ "[0 ..< length spreads]"]
          zscore_at_nonzero[OF that(2,3,4,5)] that(1)
    by simp
  have nan: "rolling_std ?ew (map pt_value spreads) i = None
           \<longleftrightarrow> ?ew < 2 \<or> i + 1 < ?ew
               \<or> None \<in> set (take ?ew (drop (i + 1 - ?ew) (map pt_value spreads)))" for i
    by (rule rolling_std_None_iff)
  show ?thesis using r zscore_points_ts[of ?ew spreads] z nz nan by blast
qed


theorem compute_zscore_points_witness:
  "(case compute_spread demo_libs flat_state ''A'' ''B'' ''1m'' 2 ''OLS'' of
      Inl e \<Rightarrow> False
    | Inr (spreads, s1) \<Rightarrow>
        2 \<le> length spreads
        \<and> rolling_std (min 2 (length spreads)) (map pt_value spreads) 1 = Some 0
        \<and> (\<exists>pts. compute_zscore demo_libs flat_state ''A'' ''B'' ''1m'' 2 ''OLS'' = Inr (pts, s1)
               \<and> map pt_ts pts = [120000000000]
               \<and> \<lparr>pt_ts = 120000000000, pt_value = Some 0\<rparr> \<in> set pts))"
proof -
  let ?sp = "[\<lparr>pt_ts = 60000000000, pt_value = Some (100 / 2501 :: real)\<rparr>,
            \<lparr>pt_ts = 120000000000, pt_value = Some (100 / 2501)\<rparr>]"
  obtain s1 where
    r: "compute_spread demo_libs flat_state ''A'' ''B'' ''1m'' 2 ''OLS'' = Inr (?sp, s1)"
    using flat_spread
    by (cases "compute_spread demo_libs flat_state ''A'' ''B'' ''1m'' 2 ''OLS''") auto
  have len: "2 \<le> length ?sp" by simp
  have sd0: "rolling_std (min 2 (length ?sp)) (map pt_value ?sp) 0 = None"
    by (simp add: rolling_std_def rolling_window_def)
  have sd1: "rolling_std (min 2 (length ?sp)) (map pt_value ?sp) 1 = Some 0"
    using flat_rolling_std by (simp add: numeral_2_eq_2)
  obtain pts where
    p: "compute_zscore demo_libs flat_state ''A'' ''B'' ''1m'' 2 ''OLS'' = Inr (pts, s1)"
    and ts: "map pt_ts pts = map (\<lambda>i. pt_ts (?sp ! i))
          (filter (\<lambda>i. rolling_std (min 2 (length ?sp)) (map pt_value ?sp) i \<noteq> None)
             [0 ..< length ?sp])"
    and z: "\<forall>i<length ?sp.
           rolling_std (min 2 (length ?sp)) (map pt_value ?sp) i = Some 0 \<longrightarrow>
           \<lparr>pt_ts = pt_ts (?sp ! i), pt_value = Some 0\<rparr> \<in> set pts"
    using compute_zscore_points[OF r len] by blast
  have "map pt_ts pts = [120000000000]"
    using sd0 sd1 by (simp add: ts upt_2)
  moreover have "\<lparr>pt_ts = 120000000000, pt_value = Some 0\<rparr> \<in> set pts"
    using z sd1 by force
  ultimately show ?thesis using p sd1 by (simp add: r)
qed

text \<open>The flat example: the spread is \<open>100 / 2501\<close> at both timestamps, the rolling
  standard deviation at the second is 0, and the z-score series holds that timestamp.\<close>

theorem zscore_zero_std_counterexample:
  "map_sum id fst (compute_spread demo_libs flat_state ''A'' ''B'' ''1m'' 2 ''OLS'')
     = Inr [\<lparr>pt_ts = 60000000000, pt_value = Some (100 / 2501)\<rparr>,
            \<lparr>pt_ts = 120000000000, pt_value = Some (100 / 2501)\<rparr>]
   \<and> rolling_std 2 [Some (100 / 2501), Some (100 / 2501)] 1 = Some 0
   \<and> map_sum id fst (compute_zscore demo_libs flat_state ''A'' ''B'' ''1m'' 2 ''OLS'')
       = Inr [\<lparr>pt_ts = 120000000000, pt_value = Some 0\<rparr>]"
proof -
  let ?sp = "[\<lparr>pt_ts = 60000000000, pt_value = Some (100 / 2501 :: real)\<rparr>,
            \<lparr>pt_ts = 120000000000, pt_value = Some (100 / 2501)\<rparr>]"
  obtain s1 where
    r: "compute_spread demo_libs flat_state ''A'' ''B'' ''1m'' 2 ''OLS'' = Inr (?sp, s1)"
    using flat_spread
    by (cases "compute_spread demo_libs flat_state ''A'' ''B'' ''1m'' 2 ''OLS''") auto
  have m: "rolling_mean 2 (map pt_value ?sp) (Suc 0) = Some (100 / 2501)"
    by (simp add: rolling_mean_def rolling_window_def mean_def)
  have z0: "zscore_at 2 ?sp 0 = None"
    by (simp add: zscore_at_def rolling_mean_def rolling_window_def)
  have z1: "zscore_at 2 ?sp (Suc 0) = Some \<lparr>pt_ts = 120000000000, pt_value = Some 0\<rparr>"
    using flat_rolling_std m by (simp add: zscore_at_def safe_division_def)
  have h: "zscore_points 2 ?sp = [\<lparr>pt_ts = 120000000000, pt_value = Some 0\<rparr>]"
    by (simp add: zscore_points_def upt_2 List.map_filter_simps z0 z1)
  have cz: "compute_zscore demo_libs flat_state ''A'' ''B'' ''1m'' 2 ''OLS''
              = Inr (zscore_points (min 2 (length ?sp)) ?sp, s1)"
    unfolding compute_zscore_def r by simp
  have e: "min (2::nat) (length ?sp) = 2" by simp
  have "map_sum id fst (compute_zscore demo_libs flat_state ''A'' ''B'' ''1m'' 2 ''OLS'')
       = Inr (zscore_points 2 ?sp)"
    unfolding cz e by simp
  then have "map_sum id fst (compute_zscore demo_libs flat_state ''A'' ''B'' ''1m'' 2 ''OLS'')
       = Inr [\<lparr>pt_ts = 120000000000, pt_value = Some 0\<rparr>]"
    by (simp only: h)
  then show ?thesis using flat_spread flat_rolling_std by simp
qed


section \<open>The alert condition\<close>

text \<open>
  \<^bold>\<open>C7.\<close> With the operator \<^verbatim>\<open>==\<close> the condition holds exactly when the actual value and the
  threshold differ by less than one millionth; it does not hold when they differ by one
  hundred-thousandth.
\<close>

theorem evaluate_condition_eq_tolerance:
  "(evaluate_condition actual ''=='' threshold \<longleftrightarrow> \<bar>actual - threshold\<bar> < 1 / 1000000)
   \<and> (\<bar>actual - threshold\<bar> = 1 / 100000 \<longrightarrow> \<not> evaluate_condition actual ''=='' threshold)"
  by (simp add: evaluate_condition_def)

theorem evaluate_condition_eq_tolerance_witness:
  "evaluate_condition (10000005 / 10000000) ''=='' 1
   \<and> \<bar>(100001 / 100000 :: real) - 1\<bar> = 1 / 100000
   \<and> \<not> evaluate_condition (100001 / 100000) ''=='' 1"
  using evaluate_condition_eq_tolerance[of "10000005 / 10000000" 1]
        evaluate_condition_eq_tolerance[of "100001 / 100000" 1]
  by simp

end
